theory Spec2Isabelle
  imports Main
begin

section \<open>The CoNLL-U lexer of colonel (\<^verbatim>\<open>colonel/conllu/lexer.py\<close>)\<close>

text \<open>
  The lexer is a set of PLY rules (class \<^verbatim>\<open>ConlluLexerBuilder\<close>): every rule is a regular
  expression, the lexer states it belongs to and a function that decodes the matched text
  and switches the state. The model has three layers: the Python string primitives the
  rule functions call, the regular expressions, and PLY's \<^verbatim>\<open>Lexer.token()\<close> loop that
  picks a rule and runs its function.

  Python strings are modelled as \<open>string\<close>, so a character is one of the code points
  0 to 255.
\<close>

subsection \<open>Characters\<close>

abbreviation (input) tab :: char where "tab \<equiv> CHR 0x09"
abbreviation (input) newline :: char where "newline \<equiv> CHR 0x0A"
abbreviation (input) space :: char where "space \<equiv> CHR 0x20"

definition in_range :: "char \<Rightarrow> char \<Rightarrow> char \<Rightarrow> bool" where
  "in_range lo hi c \<longleftrightarrow> (of_char lo :: nat) \<le> of_char c \<and> (of_char c :: nat) \<le> of_char hi"

definition is_digit :: "char \<Rightarrow> bool" where
  "is_digit c \<longleftrightarrow> in_range CHR ''0'' CHR ''9'' c"

definition digit_val :: "char \<Rightarrow> nat" where
  "digit_val c = of_char c - 48"

subsection \<open>Python string primitives\<close>

text \<open>\<^verbatim>\<open>s.split(sep)\<close> for a one-character separator: never empty, \<^verbatim>\<open>''.split('|') == ['']\<close>.\<close>

fun py_split :: "char \<Rightarrow> string \<Rightarrow> string list" where
  "py_split sep [] = [[]]"
| "py_split sep (c # s) =
     (if c = sep then [] # py_split sep s
      else (c # hd (py_split sep s)) # tl (py_split sep s))"

text \<open>\<^verbatim>\<open>s.index(c)\<close>: the first position of \<open>c\<close>; \<open>None\<close> stands for the ValueError raised
  when \<open>c\<close> does not occur.\<close>

fun py_index :: "char \<Rightarrow> string \<Rightarrow> nat option" where
  "py_index c [] = None"
| "py_index c (x # s) = (if x = c then Some 0 else map_option Suc (py_index c s))"

text \<open>\<^verbatim>\<open>s.rfind(c, 0, e)\<close>: the last position of \<open>c\<close> in \<^verbatim>\<open>s[0:e]\<close>, or -1.\<close>

definition py_rfind :: "char \<Rightarrow> string \<Rightarrow> nat \<Rightarrow> int" where
  "py_rfind c s e =
     (case dropWhile (\<lambda>x. x \<noteq> c) (rev (take e s)) of
        [] \<Rightarrow> - 1
      | _ # r \<Rightarrow> int (length r))"

text \<open>The white space of \<^verbatim>\<open>str.strip()\<close> and of \<^verbatim>\<open>int()\<close> among the code points below 256.\<close>

definition py_isspace :: "char \<Rightarrow> bool" where
  "py_isspace c \<longleftrightarrow>
     in_range (CHR 0x09) (CHR 0x0D) c \<or> in_range (CHR 0x1C) (CHR 0x20) c
     \<or> c = CHR 0x85 \<or> c = CHR 0xA0"

definition py_strip :: "string \<Rightarrow> string" where
  "py_strip s = rev (dropWhile py_isspace (rev (dropWhile py_isspace s)))"

text \<open>
  \<^verbatim>\<open>int(s)\<close> in base 10: white space is stripped, one sign is allowed, then decimal digits
  follow, where a single underscore may stand between two digits. \<open>None\<close> stands for the
  ValueError raised on any other text.
\<close>

fun digits_acc :: "nat \<Rightarrow> string \<Rightarrow> nat option" where
  "digits_acc a [] = Some a"
| "digits_acc a [c] = (if is_digit c then Some (10 * a + digit_val c) else None)"
| "digits_acc a (c # d # s) =
     (if is_digit c then digits_acc (10 * a + digit_val c) (d # s)
      else if c = CHR ''_'' \<and> is_digit d then digits_acc a (d # s)
      else None)"

definition py_int_unsigned :: "string \<Rightarrow> nat option" where
  "py_int_unsigned s =
     (case s of [] \<Rightarrow> None | c # _ \<Rightarrow> if is_digit c then digits_acc 0 s else None)"

definition py_int :: "string \<Rightarrow> int option" where
  "py_int s =
     (case py_strip s of
        [] \<Rightarrow> None
      | c # r \<Rightarrow>
          if c = CHR ''-'' then map_option (\<lambda>n. - int n) (py_int_unsigned r)
          else if c = CHR ''+'' then map_option int (py_int_unsigned r)
          else map_option int (py_int_unsigned (c # r)))"

subsection \<open>Regular expressions\<close>

text \<open>
  A matcher answers, for the text at the cursor, the length of the match that Python's
  \<^verbatim>\<open>re.match\<close> finds there, or \<open>None\<close>. The combinators are greedy and ordered and do not
  backtrack into a part that has matched. Python does backtrack, but on the patterns of this
  lexer it finds nothing else: every starred or optional part is followed either by the end
  of the pattern (so the greedy choice is kept) or by a character that the starred class
  excludes (\<^verbatim>\<open>[0-9]*-\<close>, \<^verbatim>\<open>[0-9]+\.\<close>, \<^verbatim>\<open>[A-Z0-9a-z]*=\<close>, \<^verbatim>\<open>[a-z0-9]+\]\<close>), so a shorter
  repetition cannot be continued; and after the first branch of
  \<^verbatim>\<open>([1-9][0-9]+|[0-9])\<close> has matched two digits or more, the second branch is followed by a
  digit, never by the \<^verbatim>\<open>.\<close> or \<^verbatim>\<open>:\<close> the pattern asks for.
\<close>

type_synonym matcher = "string \<Rightarrow> nat option"

definition cls :: "(char \<Rightarrow> bool) \<Rightarrow> matcher" where
  "cls P s = (case s of [] \<Rightarrow> None | c # _ \<Rightarrow> if P c then Some 1 else None)"

definition lit :: "char \<Rightarrow> matcher" where
  "lit c = cls (\<lambda>x. x = c)"

definition word :: "string \<Rightarrow> matcher" where
  "word w s = (if take (length w) s = w then Some (length w) else None)"

definition seq :: "matcher \<Rightarrow> matcher \<Rightarrow> matcher" where
  "seq m1 m2 s =
     (case m1 s of None \<Rightarrow> None | Some n \<Rightarrow> map_option ((+) n) (m2 (drop n s)))"

definition alt :: "matcher \<Rightarrow> matcher \<Rightarrow> matcher" where
  "alt m1 m2 s = (case m1 s of None \<Rightarrow> m2 s | Some n \<Rightarrow> Some n)"

definition opt :: "matcher \<Rightarrow> matcher" where
  "opt m = alt m (\<lambda>s. Some 0)"

text \<open>\<open>m*\<close>: as many rounds of \<open>m\<close> as match. A round that consumes nothing ends the
  repetition, as in Python.\<close>

function star :: "matcher \<Rightarrow> matcher" where
  "star m s =
     (case m s of
        None \<Rightarrow> Some 0
      | Some n \<Rightarrow>
          if 0 < n \<and> n \<le> length s then map_option ((+) n) (star m (drop n s))
          else Some 0)"
  by pat_completeness auto
termination
  by (relation "measure (\<lambda>(m, s). length s)") auto

declare star.simps [simp del]

definition plus :: "matcher \<Rightarrow> matcher" where
  "plus m = seq m (star m)"

subsection \<open>The patterns of \<^verbatim>\<open>ConlluLexerBuilder\<close>\<close>

definition upper_digit :: "char \<Rightarrow> bool" where  \<comment> \<open>\<^verbatim>\<open>[A-Z0-9]\<close>\<close>
  "upper_digit c \<longleftrightarrow> in_range CHR ''A'' CHR ''Z'' c \<or> is_digit c"

definition lower_digit :: "char \<Rightarrow> bool" where  \<comment> \<open>\<^verbatim>\<open>[a-z0-9]\<close>\<close>
  "lower_digit c \<longleftrightarrow> in_range CHR ''a'' CHR ''z'' c \<or> is_digit c"

definition alnum :: "char \<Rightarrow> bool" where  \<comment> \<open>\<^verbatim>\<open>[A-Z0-9a-z]\<close>, \<^verbatim>\<open>[a-zA-Z0-9]\<close>\<close>
  "alnum c \<longleftrightarrow> in_range CHR ''A'' CHR ''Z'' c \<or> is_digit c \<or> in_range CHR ''a'' CHR ''z'' c"

definition not_nl_tab :: "char \<Rightarrow> bool" where  \<comment> \<open>\<^verbatim>\<open>[^\n\t]\<close>\<close>
  "not_nl_tab c \<longleftrightarrow> c \<noteq> newline \<and> c \<noteq> tab"

definition not_nl_tab_sp :: "char \<Rightarrow> bool" where  \<comment> \<open>\<^verbatim>\<open>[^\n\t ]\<close>\<close>
  "not_nl_tab_sp c \<longleftrightarrow> c \<noteq> newline \<and> c \<noteq> tab \<and> c \<noteq> space"

definition nonzero_digit :: "char \<Rightarrow> bool" where  \<comment> \<open>\<^verbatim>\<open>[1-9]\<close>\<close>
  "nonzero_digit c \<longleftrightarrow> in_range CHR ''1'' CHR ''9'' c"

text \<open>\<^verbatim>\<open>_feat_name = r'[A-Z0-9][A-Z0-9a-z]*(\[[a-z0-9]+\])?'\<close>\<close>

definition feat_name :: matcher where
  "feat_name =
     seq (cls upper_digit) (seq (star (cls alnum))
       (opt (seq (lit CHR ''['') (seq (plus (cls lower_digit)) (lit CHR '']'')))))"

text \<open>\<^verbatim>\<open>_feat_value = r'[A-Z0-9][a-zA-Z0-9]*'\<close>\<close>

definition feat_value :: matcher where
  "feat_value = seq (cls upper_digit) (star (cls alnum))"

text \<open>\<^verbatim>\<open>_feat_values = r'{0}(,{0})*'.format(_feat_value)\<close>\<close>

definition feat_values :: matcher where
  "feat_values = seq feat_value (star (seq (lit CHR '','') feat_value))"

text \<open>\<^verbatim>\<open>_feat_pair = r'{0}={1}'.format(_feat_name, _feat_values)\<close>\<close>

definition feat_pair :: matcher where
  "feat_pair = seq feat_name (seq (lit CHR ''='') feat_values)"

text \<open>\<^verbatim>\<open>_feats = r'({0}([|]{0})*)|_'.format(_feat_pair)\<close>\<close>

definition feats :: matcher where
  "feats = alt (seq feat_pair (star (seq (lit CHR ''|'') feat_pair))) (lit CHR ''_'')"

text \<open>\<^verbatim>\<open>_dep_head = r'([1-9][0-9]+|[0-9])'\<close>\<close>

definition dep_head :: matcher where
  "dep_head = alt (seq (cls nonzero_digit) (plus (cls is_digit))) (cls is_digit)"

text \<open>\<^verbatim>\<open>_dep_deprel = r'[^\n\t ]+'\<close>\<close>

definition dep_deprel :: matcher where
  "dep_deprel = plus (cls not_nl_tab_sp)"

text \<open>\<^verbatim>\<open>_dep_pair = r'{0}:{1}'.format(_dep_head, _dep_deprel)\<close>\<close>

definition dep_pair :: matcher where
  "dep_pair = seq dep_head (seq (lit CHR '':'') dep_deprel)"

text \<open>\<^verbatim>\<open>_deps = r'({0}([|]{0})*)|_'.format(_dep_pair)\<close>\<close>

definition deps :: matcher where
  "deps = alt (seq dep_pair (star (seq (lit CHR ''|'') dep_pair))) (lit CHR ''_'')"

text \<open>
  \<^verbatim>\<open>_upos = r'({0}|_)'.format('|'.join(tag.name for tag in UposTag))\<close>. The enumeration
  \<^verbatim>\<open>UposTag\<close> (module \<^verbatim>\<open>colonel.upostag\<close>) is not among the sources at hand, so the list
  of its member names, in their order, is a parameter \<open>reg\<close> of the model.
\<close>

definition upos :: "string list \<Rightarrow> matcher" where
  "upos reg = foldr (\<lambda>name m. alt (word name) m) reg (lit CHR ''_'')"

text \<open>The pattern of the ID rules: \<^verbatim>\<open>[1-9][0-9]*\<close>.\<close>

definition pos_int :: matcher where
  "pos_int = seq (cls nonzero_digit) (star (cls is_digit))"

subsection \<open>Tokens, lexer state, errors\<close>

datatype tokkind =
  NEWLINE | TAB | COMMENT | INTEGER_ID | RANGE_ID | DECIMAL_ID
  | FORM | LEMMA | UPOS | XPOS | FEATS | HEAD | DEPREL | DEPS | MISC

text \<open>The states \<^verbatim>\<open>'INITIAL'\<close>, \<^verbatim>\<open>'v0'\<close> .. \<^verbatim>\<open>'v9'\<close> and \<^verbatim>\<open>'c1'\<close> .. \<^verbatim>\<open>'c9'\<close>. The TAB rule
  builds the name \<^verbatim>\<open>f'c{self._tab_count}'\<close> from a number, so a state carries any number
  and \<open>begin\<close> refuses the names that \<^verbatim>\<open>states\<close> does not declare.\<close>

datatype lexstate = INITIAL | V nat | C nat

definition declared :: "lexstate \<Rightarrow> bool" where
  "declared st = (case st of INITIAL \<Rightarrow> True | V i \<Rightarrow> i \<le> 9 | C i \<Rightarrow> 1 \<le> i \<and> i \<le> 9)"

text \<open>The decoded value of a token (\<^verbatim>\<open>token.value\<close> after the rule function).\<close>

datatype val =
  VNone
  | VStr string
  | VInt int
  | VInts "int list"
  | VFeats "(string \<times> string list) list"
  | VDeps "(int \<times> string) list"

text \<open>\<^verbatim>\<open>LexToken\<close>: PLY hands the rule function a token whose value is the matched text
  (\<open>string LexToken\<close>); the function returns it with the decoded value (\<open>val LexToken\<close>).\<close>

record 'v LexToken =
  tok_type :: tokkind
  tok_value :: 'v
  tok_lineno :: nat
  tok_lexpos :: nat

definition set_value :: "'a LexToken \<Rightarrow> 'b \<Rightarrow> 'b LexToken" where
  "set_value t v =
     \<lparr>tok_type = tok_type t, tok_value = v, tok_lineno = tok_lineno t, tok_lexpos = tok_lexpos t\<rparr>"

text \<open>The PLY \<^verbatim>\<open>Lexer\<close> together with the counter \<^verbatim>\<open>_tab_count\<close> of the builder that owns
  it; \<open>lexmatch\<close> is the text of the last match.\<close>

record Lexer =
  lexdata :: string
  lexpos :: nat
  lineno :: nat
  lexstate :: lexstate
  lexmatch :: string
  tab_count :: nat

datatype error =
  IllegalCharacterError nat nat char  \<comment> \<open>line number, column number, first offending character\<close>
  | ValueError

text \<open>\<^verbatim>\<open>Lexer.begin(state)\<close> raises \<^verbatim>\<open>ValueError('Undefined state')\<close> on an undeclared name.\<close>

definition begin_state :: "lexstate \<Rightarrow> Lexer \<Rightarrow> error + Lexer" where
  "begin_state st L = (if declared st then Inr (L\<lparr>lexstate := st\<rparr>) else Inl ValueError)"

definition find_column :: "string \<Rightarrow> nat \<Rightarrow> nat" where
  "find_column data pos =
     (let line_start = py_rfind newline data pos + 1
      in nat ((int pos - line_start) + 1))"

subsection \<open>The rule functions\<close>

text \<open>The last two lines of most rule functions: \<^verbatim>\<open>token.lexer.begin(st); return token\<close>.\<close>

definition begin_return ::
  "lexstate \<Rightarrow> val LexToken \<Rightarrow> Lexer \<Rightarrow> error + (val LexToken \<times> Lexer)" where
  "begin_return st tok L =
     (case begin_state st L of Inl e \<Rightarrow> Inl e | Inr L' \<Rightarrow> Inr (tok, L'))"

text \<open>\<^verbatim>\<open>None if token.value == '_' else token.value\<close>\<close>

definition nullable :: "string \<Rightarrow> val" where
  "nullable s = (if s = ''_'' then VNone else VStr s)"

definition t_v0_v1_v2_v3_v4_v5_v6_v7_v8_TAB ::
  "string LexToken \<Rightarrow> Lexer \<Rightarrow> error + (val LexToken \<times> Lexer)" where
  "t_v0_v1_v2_v3_v4_v5_v6_v7_v8_TAB tok L =
     (let L1 = L\<lparr>tab_count := tab_count L + 1\<rparr>
      in begin_return (C (tab_count L1)) (set_value tok (VStr (tok_value tok))) L1)"

definition t_COMMENT ::
  "string LexToken \<Rightarrow> Lexer \<Rightarrow> error + (val LexToken \<times> Lexer)" where
  "t_COMMENT tok L = Inr (set_value tok (VStr (py_strip (drop 1 (tok_value tok)))), L)"

definition t_RANGE_ID ::
  "string LexToken \<Rightarrow> Lexer \<Rightarrow> error + (val LexToken \<times> Lexer)" where
  "t_RANGE_ID tok L =
     (case those (map py_int (py_split CHR ''-'' (tok_value tok))) of
        None \<Rightarrow> Inl ValueError
      | Some xs \<Rightarrow> begin_return (V 0) (set_value tok (VInts xs)) L)"

definition t_DECIMAL_ID ::
  "string LexToken \<Rightarrow> Lexer \<Rightarrow> error + (val LexToken \<times> Lexer)" where
  "t_DECIMAL_ID tok L =
     (case those (map py_int (py_split CHR ''.'' (tok_value tok))) of
        None \<Rightarrow> Inl ValueError
      | Some xs \<Rightarrow> begin_return (V 0) (set_value tok (VInts xs)) L)"

definition t_INTEGER_ID ::
  "string LexToken \<Rightarrow> Lexer \<Rightarrow> error + (val LexToken \<times> Lexer)" where
  "t_INTEGER_ID tok L =
     (case py_int (tok_value tok) of
        None \<Rightarrow> Inl ValueError
      | Some n \<Rightarrow> begin_return (V 0) (set_value tok (VInt n)) L)"

definition t_c1_FORM ::
  "string LexToken \<Rightarrow> Lexer \<Rightarrow> error + (val LexToken \<times> Lexer)" where
  "t_c1_FORM tok L = begin_return (V 1) (set_value tok (VStr (tok_value tok))) L"

definition t_c2_LEMMA ::
  "string LexToken \<Rightarrow> Lexer \<Rightarrow> error + (val LexToken \<times> Lexer)" where
  "t_c2_LEMMA tok L = begin_return (V 2) (set_value tok (VStr (tok_value tok))) L"

definition t_c3_UPOS ::
  "string LexToken \<Rightarrow> Lexer \<Rightarrow> error + (val LexToken \<times> Lexer)" where
  "t_c3_UPOS tok L = begin_return (V 3) (set_value tok (nullable (tok_value tok))) L"

definition t_c4_XPOS ::
  "string LexToken \<Rightarrow> Lexer \<Rightarrow> error + (val LexToken \<times> Lexer)" where
  "t_c4_XPOS tok L = begin_return (V 4) (set_value tok (nullable (tok_value tok))) L"

text \<open>The generator of \<^verbatim>\<open>t_c5_FEATS\<close>, for one segment \<open>x\<close>:
  \<^verbatim>\<open>(x[:x.index('=')], tuple(x[x.index('=')+1:].split(',')))\<close>.\<close>

definition feat_of :: "string \<Rightarrow> (string \<times> string list) option" where
  "feat_of x =
     (case py_index CHR ''='' x of
        None \<Rightarrow> None
      | Some i \<Rightarrow> Some (take i x, py_split CHR '','' (drop (i + 1) x)))"

definition t_c5_FEATS ::
  "string LexToken \<Rightarrow> Lexer \<Rightarrow> error + (val LexToken \<times> Lexer)" where
  "t_c5_FEATS tok L =
     (if tok_value tok = ''_'' then begin_return (V 5) (set_value tok VNone) L
      else case those (map feat_of (py_split CHR ''|'' (tok_value tok))) of
             None \<Rightarrow> Inl ValueError
           | Some fs \<Rightarrow> begin_return (V 5) (set_value tok (VFeats fs)) L)"

definition t_c6_HEAD ::
  "string LexToken \<Rightarrow> Lexer \<Rightarrow> error + (val LexToken \<times> Lexer)" where
  "t_c6_HEAD tok L =
     (if tok_value tok = ''_'' then begin_return (V 6) (set_value tok VNone) L
      else case py_int (tok_value tok) of
             None \<Rightarrow> Inl ValueError
           | Some n \<Rightarrow> begin_return (V 6) (set_value tok (VInt n)) L)"

definition t_c7_DEPREL ::
  "string LexToken \<Rightarrow> Lexer \<Rightarrow> error + (val LexToken \<times> Lexer)" where
  "t_c7_DEPREL tok L = begin_return (V 7) (set_value tok (nullable (tok_value tok))) L"

text \<open>The generator of \<^verbatim>\<open>t_c8_DEPS\<close>, for one segment \<open>x\<close>:
  \<^verbatim>\<open>(int(x[:x.index(':')]), x[x.index(':')+1:])\<close>.\<close>

definition dep_of :: "string \<Rightarrow> (int \<times> string) option" where
  "dep_of x =
     (case py_index CHR '':'' x of
        None \<Rightarrow> None
      | Some i \<Rightarrow>
          (case py_int (take i x) of
             None \<Rightarrow> None
           | Some h \<Rightarrow> Some (h, drop (i + 1) x)))"

definition t_c8_DEPS ::
  "string LexToken \<Rightarrow> Lexer \<Rightarrow> error + (val LexToken \<times> Lexer)" where
  "t_c8_DEPS tok L =
     (if tok_value tok = ''_'' then begin_return (V 8) (set_value tok VNone) L
      else case those (map dep_of (py_split CHR ''|'' (tok_value tok))) of
             None \<Rightarrow> Inl ValueError
           | Some ds \<Rightarrow> begin_return (V 8) (set_value tok (VDeps ds)) L)"

definition t_c9_MISC ::
  "string LexToken \<Rightarrow> Lexer \<Rightarrow> error + (val LexToken \<times> Lexer)" where
  "t_c9_MISC tok L = begin_return (V 9) (set_value tok (nullable (tok_value tok))) L"

definition t_INITIAL_v9_NEWLINE ::
  "string LexToken \<Rightarrow> Lexer \<Rightarrow> error + (val LexToken \<times> Lexer)" where
  "t_INITIAL_v9_NEWLINE tok L =
     begin_return INITIAL (set_value tok (VStr (tok_value tok)))
       (L\<lparr>lineno := lineno L + 1, tab_count := 0\<rparr>)"

text \<open>\<^verbatim>\<open>t_ANY_error\<close> raises \<^verbatim>\<open>IllegalCharacterError(token)\<close>; the error token starts at
  \<open>pos\<close> and its value is the rest of the input, and the constructor reads the line number
  from the lexer, the column from \<open>find_column\<close> and the character \<^verbatim>\<open>token.value[0]\<close>.\<close>

definition t_ANY_error :: "nat \<Rightarrow> Lexer \<Rightarrow> error" where
  "t_ANY_error pos L =
     IllegalCharacterError (lineno L) (find_column (lexdata L) pos) (lexdata L ! pos)"

subsection \<open>PLY: the rules of a state and \<^verbatim>\<open>Lexer.token()\<close>\<close>

text \<open>The pattern of each rule (its docstring or its \<^verbatim>\<open>@TOKEN\<close> argument).\<close>

fun rule_regex :: "string list \<Rightarrow> tokkind \<Rightarrow> matcher" where
  "rule_regex reg TAB = lit tab"
| "rule_regex reg COMMENT = seq (lit CHR ''#'') (star (cls (\<lambda>c. c \<noteq> newline)))"
| "rule_regex reg RANGE_ID = seq pos_int (seq (lit CHR ''-'') pos_int)"
| "rule_regex reg DECIMAL_ID =
     seq (alt (seq (cls nonzero_digit) (plus (cls is_digit))) (cls is_digit))
       (seq (lit CHR ''.'') pos_int)"
| "rule_regex reg INTEGER_ID = pos_int"
| "rule_regex reg FORM = plus (cls not_nl_tab)"
| "rule_regex reg LEMMA = plus (cls not_nl_tab)"
| "rule_regex reg UPOS = upos reg"
| "rule_regex reg XPOS = plus (cls not_nl_tab_sp)"
| "rule_regex reg FEATS = feats"
| "rule_regex reg HEAD =
     alt (alt (seq (cls nonzero_digit) (plus (cls is_digit))) (cls is_digit)) (lit CHR ''_'')"
| "rule_regex reg DEPREL = plus (cls not_nl_tab_sp)"
| "rule_regex reg DEPS = deps"
| "rule_regex reg MISC = plus (cls not_nl_tab_sp)"
| "rule_regex reg NEWLINE = lit newline"

fun rule_func ::
  "tokkind \<Rightarrow> string LexToken \<Rightarrow> Lexer \<Rightarrow> error + (val LexToken \<times> Lexer)" where
  "rule_func TAB = t_v0_v1_v2_v3_v4_v5_v6_v7_v8_TAB"
| "rule_func COMMENT = t_COMMENT"
| "rule_func RANGE_ID = t_RANGE_ID"
| "rule_func DECIMAL_ID = t_DECIMAL_ID"
| "rule_func INTEGER_ID = t_INTEGER_ID"
| "rule_func FORM = t_c1_FORM"
| "rule_func LEMMA = t_c2_LEMMA"
| "rule_func UPOS = t_c3_UPOS"
| "rule_func XPOS = t_c4_XPOS"
| "rule_func FEATS = t_c5_FEATS"
| "rule_func HEAD = t_c6_HEAD"
| "rule_func DEPREL = t_c7_DEPREL"
| "rule_func DEPS = t_c8_DEPS"
| "rule_func MISC = t_c9_MISC"
| "rule_func NEWLINE = t_INITIAL_v9_NEWLINE"

text \<open>
  The rules of each state, read off the function names (\<^verbatim>\<open>t_<states>_<TOKEN>\<close>, no state
  meaning \<^verbatim>\<open>INITIAL\<close>; all the declared states are exclusive). PLY joins the function rules
  of a state in the order of their definition in the file into one alternation, and
  Python's alternation takes the first branch that matches.
\<close>

fun lexstatere :: "lexstate \<Rightarrow> tokkind list" where
  "lexstatere INITIAL = [COMMENT, RANGE_ID, DECIMAL_ID, INTEGER_ID, NEWLINE]"
| "lexstatere (V i) = (if i \<le> 8 then [TAB] else if i = 9 then [NEWLINE] else [])"
| "lexstatere (C i) =
     (if i = 1 then [FORM] else if i = 2 then [LEMMA] else if i = 3 then [UPOS]
      else if i = 4 then [XPOS] else if i = 5 then [FEATS] else if i = 6 then [HEAD]
      else if i = 7 then [DEPREL] else if i = 8 then [DEPS] else if i = 9 then [MISC]
      else [])"

fun first_match :: "string list \<Rightarrow> tokkind list \<Rightarrow> string \<Rightarrow> (tokkind \<times> nat) option" where
  "first_match reg [] s = None"
| "first_match reg (k # ks) s =
     (case rule_regex reg k s of Some n \<Rightarrow> Some (k, n) | None \<Rightarrow> first_match reg ks s)"

text \<open>
  \<^verbatim>\<open>Lexer.token()\<close>: at the end of the input it returns \<^verbatim>\<open>None\<close>; otherwise it matches the
  rules of the current state at the cursor, moves the cursor behind the match, and runs the
  rule function on the token; when no rule matches it calls the error function, which raises.
  (No state has ignored characters or literals.)
\<close>

definition token :: "string list \<Rightarrow> Lexer \<Rightarrow> error + (val LexToken option \<times> Lexer)" where
  "token reg L =
     (if lexpos L < length (lexdata L) then
        (let rest = drop (lexpos L) (lexdata L)
         in case first_match reg (lexstatere (lexstate L)) rest of
              Some (k, n) \<Rightarrow>
                (let tok = \<lparr>tok_type = k, tok_value = take n rest,
                            tok_lineno = lineno L, tok_lexpos = lexpos L\<rparr>;
                     L1 = L\<lparr>lexpos := lexpos L + n, lexmatch := take n rest\<rparr>
                 in case rule_func k tok L1 of
                      Inl e \<Rightarrow> Inl e
                    | Inr (tok', L2) \<Rightarrow> Inr (Some tok', L2))
            | None \<Rightarrow> Inl (t_ANY_error (lexpos L) L))
      else Inr (None, L\<lparr>lexpos := lexpos L + 1\<rparr>))"

text \<open>\<^verbatim>\<open>ConlluLexerBuilder.build()\<close> followed by \<^verbatim>\<open>lexer.input(data)\<close>.\<close>

definition input :: "string \<Rightarrow> Lexer" where
  "input data =
     \<lparr>lexdata = data, lexpos = 0, lineno = 1, lexstate = INITIAL, lexmatch = [], tab_count = 0\<rparr>"

text \<open>
  The member names of an enumeration are identifiers: not empty, made of letters, digits
  and underscores. (PLY's \<^verbatim>\<open>lex()\<close> refuses to build a lexer with a rule whose pattern
  matches the empty string, which an empty list of names or an empty name would give.)
\<close>

definition py_identifier :: "string \<Rightarrow> bool" where
  "py_identifier n \<longleftrightarrow> n \<noteq> [] \<and> list_all (\<lambda>c. alnum c \<or> c = CHR ''_'') n"

definition registry_ok :: "string list \<Rightarrow> bool" where
  "registry_ok reg \<longleftrightarrow> reg \<noteq> [] \<and> list_all py_identifier reg"

subsection \<open>Driving the lexer\<close>

datatype outcome = Exhausted | Raised error | NoProgress

text \<open>
  The consumer's loop (\<^verbatim>\<open>for tok in lexer\<close>): the tokens, each with the text it was matched
  on, up to the end of the input or to the error. Every rule of a buildable lexer consumes
  at least one character; the model stops with \<open>NoProgress\<close> where a call would not move
  the cursor forward, and \<open>lex_all_progress\<close> below shows that no registry of identifiers
  gets there.
\<close>

function lex_all :: "string list \<Rightarrow> Lexer \<Rightarrow> (string \<times> val LexToken) list \<times> outcome" where
  "lex_all reg L =
     (case token reg L of
        Inl e \<Rightarrow> ([], Raised e)
      | Inr (None, L') \<Rightarrow> ([], Exhausted)
      | Inr (Some t, L') \<Rightarrow>
          if length (lexdata L') - lexpos L' < length (lexdata L) - lexpos L
          then (case lex_all reg L' of (ts, r) \<Rightarrow> ((lexmatch L', t) # ts, r))
          else ([], NoProgress))"
  by pat_completeness auto
termination
  by (relation "measure (\<lambda>(reg, L). length (lexdata L) - lexpos L)") auto

declare lex_all.simps [simp del]

text \<open>The lexer after \<open>n\<close> calls of \<^verbatim>\<open>token()\<close> that each returned a token, with these tokens.\<close>

fun calls :: "string list \<Rightarrow> nat \<Rightarrow> Lexer \<Rightarrow> (val LexToken list \<times> Lexer) option" where
  "calls reg 0 L = Some ([], L)"
| "calls reg (Suc n) L =
     (case calls reg n L of
        None \<Rightarrow> None
      | Some (ts, L1) \<Rightarrow>
          (case token reg L1 of
             Inr (Some t, L2) \<Rightarrow> Some (ts @ [t], L2)
           | _ \<Rightarrow> None))"

text \<open>\<^verbatim>\<open>sep.join(parts)\<close>, used to write inputs down.\<close>

fun join :: "string \<Rightarrow> string list \<Rightarrow> string" where
  "join sep [] = []"
| "join sep [x] = x"
| "join sep (x # y # xs) = x @ sep @ join sep (y # xs)"

text \<open>A registry to run examples with: the seventeen tag names of Universal Dependencies.\<close>

definition ud_tags :: "string list" where
  "ud_tags =
     [''ADJ'', ''ADP'', ''ADV'', ''AUX'', ''CCONJ'', ''DET'', ''INTJ'', ''NOUN'', ''NUM'',
      ''PART'', ''PRON'', ''PROPN'', ''PUNCT'', ''SCONJ'', ''SYM'', ''VERB'', ''X'']"

subsection \<open>Properties of matchers, used in the proofs\<close>

definition matches_only :: "(char \<Rightarrow> bool) \<Rightarrow> matcher \<Rightarrow> bool" where
  "matches_only P m \<longleftrightarrow> (\<forall>s n. m s = Some n \<longrightarrow> n \<le> length s \<and> list_all P (take n s))"

definition consuming :: "matcher \<Rightarrow> bool" where
  "consuming m \<longleftrightarrow> (\<forall>s n. m s = Some n \<longrightarrow> 0 < n)"

subsection \<open>Notions the claims are stated with\<close>

text \<open>The number of TAB tokens since the last NEWLINE token, in a list of tokens in the order
  of their production.\<close>

definition tabs_in_row :: "val LexToken list \<Rightarrow> nat" where
  "tabs_in_row ts =
     length (filter (\<lambda>t. tok_type t = TAB)
       (takeWhile (\<lambda>t. tok_type t \<noteq> NEWLINE) (rev ts)))"

text \<open>The lexer state and the tab counter agree: the state is the column index.\<close>

definition in_row :: "Lexer \<Rightarrow> bool" where
  "in_row L =
     (case lexstate L of
        INITIAL \<Rightarrow> tab_count L = 0
      | V i \<Rightarrow> i \<le> 9 \<and> tab_count L = i
      | C i \<Rightarrow> 1 \<le> i \<and> i \<le> 9 \<and> tab_count L = i)"

text \<open>
  The FEATS value in the words of the specification: the text is split on \<^verbatim>\<open>|\<close>, and each
  segment is split at its first \<^verbatim>\<open>=\<close> into the name before it and the comma-separated
  values after it.
\<close>

definition spec_feat :: "string \<Rightarrow> string \<times> string list" where
  "spec_feat x =
     (takeWhile (\<lambda>c. c \<noteq> CHR ''='') x,
      py_split CHR '','' (drop 1 (dropWhile (\<lambda>c. c \<noteq> CHR ''='') x)))"

definition spec_feats :: "string \<Rightarrow> (string \<times> string list) list" where
  "spec_feats w = map spec_feat (py_split CHR ''|'' w)"

subsection \<open>Inputs of the examples\<close>

text \<open>A token row whose DEPS field is \<^verbatim>\<open>1:a|b\<close>: the second segment has no colon.\<close>

definition bad_deps_row :: string where
  "bad_deps_row =
     join [tab] [''1'', ''dog'', ''dog'', ''NOUN'', ''_'', ''_'', ''0'', ''root'', ''1:a|b'', ''_'']
       @ [newline]"

text \<open>A row with a tenth tab, after the MISC field.\<close>

definition ten_tabs_row :: string where
  "ten_tabs_row =
     join [tab] [''1'', ''a'', ''b'', ''_'', ''_'', ''_'', ''0'', ''r'', ''_'', ''x'', []]"

text \<open>A row whose nine fields after the ID are all an underscore.\<close>

definition underscore_row :: string where
  "underscore_row =
     join [tab] [''1'', ''_'', ''_'', ''_'', ''_'', ''_'', ''_'', ''_'', ''_'', ''_'']
       @ [newline]"

text \<open>A row with a space in the FORM, LEMMA and XPOS fields.\<close>

definition spaces_row :: string where
  "spaces_row = join [tab] [''1'', ''New York'', ''new york'', ''PROPN'', ''N P'']"

text \<open>The beginning of a row up to its HEAD field, with the ID 12 and the HEAD 10.\<close>

definition head_row :: string where
  "head_row = join [tab] [''12'', ''a'', ''b'', ''_'', ''_'', ''_'', ''10'']"

text \<open>The beginning of a row up to its FEATS field, which has two features.\<close>

definition feats_row :: string where
  "feats_row = join [tab] [''1'', ''dog'', ''dog'', ''NOUN'', ''_'', ''Case=Nom|Number=Sing'']"

section \<open>Lemmas\<close>

subsection \<open>Matchers\<close>

lemma cls_Nil [simp]: "cls P [] = None"
  by (simp add: cls_def)

lemma cls_Cons [simp]: "cls P (c # s) = (if P c then Some 1 else None)"
  by (simp add: cls_def)

lemma lit_Nil [simp]: "lit a [] = None"
  by (simp add: lit_def)

lemma lit_Cons [simp]: "lit a (c # s) = (if c = a then Some 1 else None)"
  by (simp add: lit_def)

lemma star_cls [simp]: "star (cls P) s = Some (length (takeWhile P s))"
proof (induction s)
  case Nil
  show ?case by (simp add: star.simps [of _ "[]"])
next
  case (Cons c s)
  then show ?case by (simp add: star.simps [of _ "c # s"])
qed

lemma plus_cls_Nil [simp]: "plus (cls P) [] = None"
  by (simp add: plus_def seq_def)

lemma plus_cls_Cons [simp]:
  "plus (cls P) (c # s) = (if P c then Some (Suc (length (takeWhile P s))) else None)"
  by (simp add: plus_def seq_def)

lemma seq_Some:
  "seq m1 m2 s = Some n \<longleftrightarrow>
     (\<exists>n1 n2. m1 s = Some n1 \<and> m2 (drop n1 s) = Some n2 \<and> n = n1 + n2)"
  by (auto simp: seq_def split: option.splits)

lemma alt_Some:
  "alt m1 m2 s = Some n \<longleftrightarrow> m1 s = Some n \<or> (m1 s = None \<and> m2 s = Some n)"
  by (auto simp: alt_def split: option.splits)

lemma take_length_takeWhile [simp]: "take (length (takeWhile P s)) s = takeWhile P s"
  by (induction s) auto

lemma drop_length_takeWhile [simp]: "drop (length (takeWhile P s)) s = dropWhile P s"
  by (induction s) auto

subsection \<open>What a matcher consumes\<close>

lemma matches_onlyD:
  "matches_only P m \<Longrightarrow> m s = Some n \<Longrightarrow> n \<le> length s \<and> list_all P (take n s)"
  by (simp add: matches_only_def)

lemma consumingD: "consuming m \<Longrightarrow> m s = Some n \<Longrightarrow> 0 < n"
  by (simp add: consuming_def)

lemma only_cls: "(\<And>c. Q c \<Longrightarrow> P c) \<Longrightarrow> matches_only P (cls Q)"
  by (auto simp: matches_only_def cls_def split: list.splits if_splits)

lemma only_lit: "P a \<Longrightarrow> matches_only P (lit a)"
  unfolding lit_def by (rule only_cls) simp

lemma take_eq_imp_le: "take (length w) s = w \<Longrightarrow> length w \<le> length s"
proof -
  assume "take (length w) s = w"
  then have "length (take (length w) s) = length w" by (simp only:)
  then show ?thesis by (simp only: length_take)
qed

lemma only_word: "list_all P w \<Longrightarrow> matches_only P (word w)"
  by (auto simp: matches_only_def word_def take_eq_imp_le split: if_splits)

lemma only_seq:
  assumes "matches_only P m1" and "matches_only P m2"
  shows "matches_only P (seq m1 m2)"
  unfolding matches_only_def
proof (intro allI impI)
  fix s n
  assume "seq m1 m2 s = Some n"
  then obtain n1 n2 where a: "m1 s = Some n1" and b: "m2 (drop n1 s) = Some n2"
    and n: "n = n1 + n2"
    by (auto simp: seq_Some)
  from matches_onlyD [OF assms(1) a] matches_onlyD [OF assms(2) b]
  show "n \<le> length s \<and> list_all P (take n s)"
    by (auto simp: n take_add)
qed

lemma only_alt:
  assumes "matches_only P m1" and "matches_only P m2"
  shows "matches_only P (alt m1 m2)"
  unfolding matches_only_def
proof (intro allI impI)
  fix s n
  assume "alt m1 m2 s = Some n"
  then have "m1 s = Some n \<or> m2 s = Some n"
    by (simp add: alt_def split: option.splits)
  then show "n \<le> length s \<and> list_all P (take n s)"
    using matches_onlyD [OF assms(1)] matches_onlyD [OF assms(2)] by blast
qed

lemma only_opt:
  assumes "matches_only P m"
  shows "matches_only P (opt m)"
  unfolding matches_only_def
proof (intro allI impI)
  fix s n
  assume "opt m s = Some n"
  then have "m s = Some n \<or> n = 0"
    by (simp add: opt_def alt_def split: option.splits)
  then show "n \<le> length s \<and> list_all P (take n s)"
    using matches_onlyD [OF assms] by auto
qed

lemma star_only_aux:
  "matches_only P m \<Longrightarrow> star m s = Some n \<Longrightarrow> n \<le> length s \<and> list_all P (take n s)"
proof (induction m s arbitrary: n rule: star.induct)
  case (1 m s)
  note mo = \<open>matches_only P m\<close>
  note st = \<open>star m s = Some n\<close>
  show ?case
  proof (cases "m s")
    case None
    with st show ?thesis by (simp add: star.simps [of m s])
  next
    case (Some k)
    show ?thesis
    proof (cases "0 < k \<and> k \<le> length s")
      case False
      with Some st show ?thesis by (auto simp: star.simps [of m s])
    next
      case True
      with Some st obtain n' where n': "star m (drop k s) = Some n'" and n: "n = k + n'"
        by (auto simp: star.simps [of m s])
      from "1.IH" [OF Some True mo n']
      have "n' \<le> length (drop k s) \<and> list_all P (take n' (drop k s))" .
      moreover from matches_onlyD [OF mo Some]
      have "list_all P (take k s)" by simp
      ultimately show ?thesis using True by (auto simp: n take_add)
    qed
  qed
qed

lemma only_star:
  assumes "matches_only P m"
  shows "matches_only P (star m)"
  unfolding matches_only_def [of P "star m"]
  using star_only_aux [OF assms] by blast

lemma only_plus: "matches_only P m \<Longrightarrow> matches_only P (plus m)"
  unfolding plus_def by (intro only_seq only_star)

lemma cons_cls: "consuming (cls Q)"
  by (auto simp: consuming_def cls_def split: list.splits if_splits)

lemma cons_lit: "consuming (lit a)"
  unfolding lit_def by (rule cons_cls)

lemma cons_seq: "consuming m1 \<Longrightarrow> consuming (seq m1 m2)"
  by (auto simp: consuming_def seq_Some)

lemma cons_alt: "consuming m1 \<Longrightarrow> consuming m2 \<Longrightarrow> consuming (alt m1 m2)"
  by (auto simp: consuming_def alt_Some)

lemma cons_plus: "consuming m \<Longrightarrow> consuming (plus m)"
  unfolding plus_def by (rule cons_seq)

lemma cons_word: "w \<noteq> [] \<Longrightarrow> consuming (word w)"
  by (auto simp: consuming_def word_def split: if_splits)

lemmas only_intros = only_seq only_alt only_opt only_star only_plus only_lit only_cls
lemmas cons_intros = cons_seq cons_alt cons_plus cons_lit cons_cls

lemma only_upos: "matches_only (\<lambda>c. True) (upos reg)"
  unfolding upos_def
  by (induction reg) (auto intro!: only_alt only_lit only_word simp: list_all_iff)

lemma cons_upos: "list_all (\<lambda>n. n \<noteq> []) reg \<Longrightarrow> consuming (upos reg)"
  unfolding upos_def
  by (induction reg) (auto intro!: cons_alt cons_lit cons_word)

lemmas pattern_defs = feats_def deps_def dep_pair_def dep_head_def dep_deprel_def
  feat_pair_def feat_name_def feat_values_def feat_value_def pos_int_def


lemma only_rule: "matches_only (\<lambda>c. True) (rule_regex reg k)"
proof (cases k)
  case UPOS
  then show ?thesis by (simp add: only_upos)
qed (simp_all add: pattern_defs, (intro only_intros; simp)+)

lemma cons_rule: "registry_ok reg \<Longrightarrow> consuming (rule_regex reg k)"
proof (cases k)
  case UPOS
  assume "registry_ok reg"
  then have "list_all (\<lambda>n. n \<noteq> []) reg"
    by (auto simp: registry_ok_def py_identifier_def list_all_iff)
  with UPOS show ?thesis by (simp add: cons_upos)
qed (simp_all add: pattern_defs, (intro cons_intros)+)

lemma first_match_Some:
  "first_match reg ks s = Some (k, n) \<Longrightarrow> k \<in> set ks \<and> rule_regex reg k s = Some n"
  by (induction ks) (auto split: option.splits)

lemma token_Some:
  "token reg L = Inr (Some t, L') \<longleftrightarrow>
     lexpos L < length (lexdata L) \<and>
     (\<exists>k n. first_match reg (lexstatere (lexstate L)) (drop (lexpos L) (lexdata L)) = Some (k, n)
        \<and> rule_func k
            \<lparr>tok_type = k, tok_value = take n (drop (lexpos L) (lexdata L)),
               tok_lineno = lineno L, tok_lexpos = lexpos L\<rparr>
            (L\<lparr>lexpos := lexpos L + n, lexmatch := take n (drop (lexpos L) (lexdata L))\<rparr>)
          = Inr (t, L'))"
  by (auto simp: token_def Let_def split: option.splits sum.splits prod.splits)

lemmas rule_defs =
  t_v0_v1_v2_v3_v4_v5_v6_v7_v8_TAB_def t_COMMENT_def t_RANGE_ID_def t_DECIMAL_ID_def
  t_INTEGER_ID_def t_c1_FORM_def t_c2_LEMMA_def t_c3_UPOS_def t_c4_XPOS_def t_c5_FEATS_def
  t_c6_HEAD_def t_c7_DEPREL_def t_c8_DEPS_def t_c9_MISC_def t_INITIAL_v9_NEWLINE_def

lemma begin_return_Inr:
  "begin_return st tok L = Inr (t, L') \<longleftrightarrow> declared st \<and> t = tok \<and> L' = L\<lparr>lexstate := st\<rparr>"
  by (auto simp: begin_return_def begin_state_def)

lemma rule_func_frame:
  assumes "rule_func k tok L1 = Inr (t, L')"
  shows "tok_type t = tok_type tok \<and> tok_lineno t = tok_lineno tok
    \<and> tok_lexpos t = tok_lexpos tok \<and> lexdata L' = lexdata L1 \<and> lexpos L' = lexpos L1
    \<and> lexmatch L' = lexmatch L1"
  using assms
  by (cases k)
    (auto simp: rule_defs begin_return_Inr set_value_def Let_def split: option.splits if_splits)

subsection \<open>Running the model on a given text\<close>

lemmas char_class_defs =
  in_range_def is_digit_def upper_digit_def lower_digit_def alnum_def not_nl_tab_def
  not_nl_tab_sp_def nonzero_digit_def

lemmas regex_defs = seq_def alt_def opt_def pattern_defs upos_def word_def

lemmas action_defs = rule_defs begin_return_def begin_state_def declared_def set_value_def
  nullable_def feat_of_def dep_of_def

lemmas py_defs = py_int_def py_int_unsigned_def py_strip_def py_isspace_def digit_val_def
  py_rfind_def find_column_def

lemmas run_defs = char_class_defs regex_defs action_defs py_defs token_def input_def
  t_ANY_error_def star.simps lex_all.simps Let_def

subsection \<open>The ID patterns\<close>

lemma pos_int_eq:
  "pos_int s =
     (case s of [] \<Rightarrow> None
      | c # r \<Rightarrow> if nonzero_digit c then Some (Suc (length (takeWhile is_digit r))) else None)"
  by (simp add: pos_int_def seq_def split: list.splits)

lemma head_eq:
  "alt (seq (cls nonzero_digit) (plus (cls is_digit))) (cls is_digit) s =
     (case s of [] \<Rightarrow> None
      | c # r \<Rightarrow>
          if nonzero_digit c \<and> r \<noteq> [] \<and> is_digit (hd r)
          then Some (Suc (length (takeWhile is_digit r)))
          else if is_digit c then Some 1 else None)"
  by (cases s; cases "tl s") (auto simp: alt_def seq_def)

lemma nonzero_is_digit: "nonzero_digit c \<Longrightarrow> is_digit c"
  by (simp add: nonzero_digit_def is_digit_def in_range_def)

lemma lit_Some: "lit a t = Some n \<longleftrightarrow> (\<exists>t'. t = a # t') \<and> n = 1"
  by (cases t) auto

lemma head_nonzero:
  "nonzero_digit c \<Longrightarrow>
   alt (seq (cls nonzero_digit) (plus (cls is_digit))) (cls is_digit) (c # r)
     = Some (Suc (length (takeWhile is_digit r)))"
  by (cases r) (auto simp: head_eq nonzero_is_digit)

lemma integer_id_Some:
  "pos_int s = Some n \<longleftrightarrow>
     (\<exists>c r. s = c # r \<and> nonzero_digit c \<and> n = Suc (length (takeWhile is_digit r)))"
  by (cases s) (auto simp: pos_int_eq)

lemma range_id_Some:
  assumes "rule_regex reg RANGE_ID s = Some n"
  shows "\<exists>c r t. s = c # r \<and> nonzero_digit c \<and> dropWhile is_digit r = CHR ''-'' # t
           \<and> Suc (length (takeWhile is_digit r)) < n"
proof -
  from assms obtain n1 n2 n3 where a: "pos_int s = Some n1"
    and b: "lit CHR ''-'' (drop n1 s) = Some n2" and n: "n = n1 + (n2 + n3)"
    by (auto simp: seq_Some)
  from a obtain c r where s: "s = c # r" and c: "nonzero_digit c"
    and n1: "n1 = Suc (length (takeWhile is_digit r))"
    by (auto simp: pos_int_eq split: list.splits if_splits)
  from b obtain t where "dropWhile is_digit r = CHR ''-'' # t" and "n2 = 1"
    by (auto simp: lit_Some s n1)
  with s c n n1 show ?thesis by auto
qed

lemma decimal_id_Some:
  assumes "rule_regex reg DECIMAL_ID (c # r) = Some n" and "nonzero_digit c"
  shows "\<exists>t. dropWhile is_digit r = CHR ''.'' # t \<and> Suc (length (takeWhile is_digit r)) < n"
proof -
  from assms obtain n2 n3 where
    b: "lit CHR ''.'' (drop (Suc (length (takeWhile is_digit r))) (c # r)) = Some n2"
    and n: "n = Suc (length (takeWhile is_digit r)) + (n2 + n3)"
    by (auto simp: seq_Some head_nonzero)
  from b obtain t where "dropWhile is_digit r = CHR ''.'' # t" and "n2 = 1"
    by (auto simp: lit_Some)
  with n show ?thesis by auto
qed

lemma id_starts_with_digit:
  assumes "rule_regex reg k s = Some n" and "k = INTEGER_ID \<or> k = RANGE_ID \<or> k = DECIMAL_ID"
  shows "\<exists>c r. s = c # r \<and> is_digit c"
  using assms
  by (cases s)
    (auto simp: seq_def pos_int_eq head_eq nonzero_is_digit split: option.splits if_splits)

lemma comment_no_digit: "is_digit c \<Longrightarrow> rule_regex reg COMMENT (c # r) = None"
  by (auto simp: seq_def is_digit_def in_range_def)

lemma longest_id_wins:
  assumes m: "rule_regex reg k s = Some n"
    and k: "k = INTEGER_ID \<or> k = RANGE_ID \<or> k = DECIMAL_ID"
  shows "\<exists>k' n'. first_match reg (lexstatere INITIAL) s = Some (k', n')
           \<and> (k' = INTEGER_ID \<or> k' = RANGE_ID \<or> k' = DECIMAL_ID) \<and> n \<le> n'"
proof -
  from id_starts_with_digit [OF m k] obtain c r where s: "s = c # r" and c: "is_digit c"
    by blast
  have nc: "rule_regex reg COMMENT s = None"
    using c by (simp only: s comment_no_digit)
  show ?thesis
  proof (cases "rule_regex reg RANGE_ID s")
    case (Some nr)
    then have fm: "first_match reg (lexstatere INITIAL) s = Some (RANGE_ID, nr)"
      using nc by simp
    from range_id_Some [OF Some] s obtain t where nz: "nonzero_digit c"
      and dw: "dropWhile is_digit r = CHR ''-'' # t"
      and lt: "Suc (length (takeWhile is_digit r)) < nr"
      by auto
    have "n \<le> nr"
    proof -
      from k consider "k = INTEGER_ID" | "k = RANGE_ID" | "k = DECIMAL_ID" by blast
      then show ?thesis
      proof cases
        case 1
        with m s lt show ?thesis by (auto simp: integer_id_Some)
      next
        case 2
        with m Some show ?thesis by simp
      next
        case 3
        with m s decimal_id_Some [OF _ nz, of reg r n] dw show ?thesis by auto
      qed
    qed
    with fm show ?thesis by auto
  next
    case None
    note nr = None
    show ?thesis
    proof (cases "rule_regex reg DECIMAL_ID s")
      case (Some nd)
      then have fm: "first_match reg (lexstatere INITIAL) s = Some (DECIMAL_ID, nd)"
        using nc nr by simp
      have "n \<le> nd"
      proof -
        from k nr m consider "k = INTEGER_ID" | "k = DECIMAL_ID" by auto
        then show ?thesis
        proof cases
          case 1
          with m s have nz: "nonzero_digit c" and n: "n = Suc (length (takeWhile is_digit r))"
            by (auto simp: integer_id_Some)
          from decimal_id_Some [OF _ nz, of reg r nd] Some s n show ?thesis by auto
        next
          case 2
          with m Some show ?thesis by simp
        qed
      qed
      with fm show ?thesis by auto
    next
      case None
      with nr m k have ki: "k = INTEGER_ID" by auto
      with m nc nr None have "first_match reg (lexstatere INITIAL) s = Some (INTEGER_ID, n)"
        by simp
      then show ?thesis by auto
    qed
  qed
qed

subsection \<open>The tab counter and the state\<close>

lemma token_step:
  assumes "token reg L = Inr (Some t, L')" and "in_row L"
  shows "in_row L' \<and> lexdata L' = lexdata L
    \<and> tab_count L' = (if tok_type t = TAB then tab_count L + 1
                       else if tok_type t = NEWLINE then 0 else tab_count L)
    \<and> lineno L' = (if tok_type t = NEWLINE then lineno L + 1 else lineno L)
    \<and> (tok_type t = TAB \<longrightarrow> lexstate L' = C (tab_count L'))
    \<and> (tok_type t = NEWLINE \<longrightarrow> lexstate L' = INITIAL)"
proof -
  from assms(1) obtain k n where
    fm: "first_match reg (lexstatere (lexstate L)) (drop (lexpos L) (lexdata L)) = Some (k, n)"
    and rf: "rule_func k
            \<lparr>tok_type = k, tok_value = take n (drop (lexpos L) (lexdata L)),
               tok_lineno = lineno L, tok_lexpos = lexpos L\<rparr>
            (L\<lparr>lexpos := lexpos L + n, lexmatch := take n (drop (lexpos L) (lexdata L))\<rparr>)
          = Inr (t, L')"
    by (auto simp: token_Some)
  from first_match_Some [OF fm] have k: "k \<in> set (lexstatere (lexstate L))" by simp
  show ?thesis
  proof (cases "lexstate L")
    case INITIAL
    with k rf assms(2) show ?thesis
      by (auto simp: in_row_def rule_defs begin_return_Inr set_value_def declared_def
          split: option.splits)
  next
    case (V i)
    with k rf assms(2) show ?thesis
      by (auto simp: in_row_def rule_defs begin_return_Inr set_value_def declared_def Let_def
          split: option.splits if_splits)
  next
    case (C i)
    with k rf assms(2) show ?thesis
      by (auto simp: in_row_def rule_defs begin_return_Inr set_value_def declared_def
          split: option.splits if_splits)
  qed
qed

lemma tabs_in_row_snoc:
  "tabs_in_row (ts @ [t]) =
     (if tok_type t = NEWLINE then 0
      else if tok_type t = TAB then Suc (tabs_in_row ts) else tabs_in_row ts)"
  by (simp add: tabs_in_row_def)

lemma calls_invariant:
  "calls reg n (input data) = Some (ts, L) \<Longrightarrow>
     in_row L \<and> lexdata L = data \<and> tab_count L = tabs_in_row ts
     \<and> lineno L = 1 + length (filter (\<lambda>t. tok_type t = NEWLINE) ts)
     \<and> (ts \<noteq> [] \<and> tok_type (last ts) = NEWLINE \<longrightarrow> lexstate L = INITIAL)
     \<and> (ts \<noteq> [] \<and> tok_type (last ts) = TAB \<longrightarrow> lexstate L = C (tabs_in_row ts))"
proof (induction n arbitrary: ts L)
  case 0
  then show ?case by (auto simp: input_def in_row_def tabs_in_row_def)
next
  case (Suc n)
  from Suc.prems obtain ts0 L0 t where c: "calls reg n (input data) = Some (ts0, L0)"
    and tk: "token reg L0 = Inr (Some t, L)" and ts: "ts = ts0 @ [t]"
    by (auto split: option.splits sum.splits prod.splits)
  from Suc.IH [OF c] have ih: "in_row L0" "lexdata L0 = data" "tab_count L0 = tabs_in_row ts0"
    "lineno L0 = 1 + length (filter (\<lambda>t. tok_type t = NEWLINE) ts0)"
    by simp_all
  from token_step [OF tk ih(1)] ih(2-4) show ?case
    by (simp add: ts tabs_in_row_snoc)
qed

lemma in_row_bound: "in_row L \<Longrightarrow> tab_count L \<le> 9"
  by (auto simp: in_row_def split: lexstate.splits)

lemma tenth_tab:
  assumes "in_row L" and "tab_count L = 9" and "lexpos L < length (lexdata L)"
    and "lexdata L ! lexpos L = tab"
  shows "token reg L =
    Inl (IllegalCharacterError (lineno L) (find_column (lexdata L) (lexpos L)) tab)"
proof -
  from assms(3,4) obtain r where d: "drop (lexpos L) (lexdata L) = tab # r"
    by (metis Cons_nth_drop_Suc)
  from assms(1,2) have "lexstate L = V 9 \<or> lexstate L = C 9"
    by (auto simp: in_row_def split: lexstate.splits)
  then have "first_match reg (lexstatere (lexstate L)) (tab # r) = None"
    by (auto simp: not_nl_tab_sp_def)
  with assms(3,4) d show ?thesis
    by (simp add: token_def t_ANY_error_def)
qed

subsection \<open>From one call of token to the whole run\<close>

lemma lex_all_tokens:
  "(\<And>L t L'. token reg L = Inr (Some t, L') \<Longrightarrow> P (lexmatch L') t)
    \<Longrightarrow> (w, t) \<in> set (fst (lex_all reg L)) \<Longrightarrow> P w t"
proof (induction reg L rule: lex_all.induct)
  case (1 reg L)
  note step = "1.prems"(1)
  note mem = "1.prems"(2)
  show ?case
  proof (cases "token reg L")
    case (Inl e)
    with mem show ?thesis by (simp add: lex_all.simps [of reg L])
  next
    case (Inr p)
    obtain ot L' where p: "p = (ot, L')" by (cases p)
    show ?thesis
    proof (cases ot)
      case None
      with Inr p mem show ?thesis by (simp add: lex_all.simps [of reg L])
    next
      case (Some t')
      show ?thesis
      proof (cases "length (lexdata L') - lexpos L' < length (lexdata L) - lexpos L")
        case False
        with Inr p Some mem show ?thesis by (simp add: lex_all.simps [of reg L])
      next
        case True
        from Inr p Some have tk: "token reg L = Inr (Some t', L')" by simp
        from tk True mem
        have "(w, t) = (lexmatch L', t') \<or> (w, t) \<in> set (fst (lex_all reg L'))"
          by (auto simp: lex_all.simps [of reg L] split: prod.splits)
        then show ?thesis
        proof
          assume "(w, t) = (lexmatch L', t')"
          with step [OF tk] show ?thesis by simp
        next
          assume "(w, t) \<in> set (fst (lex_all reg L'))"
          from "1.IH" [OF Inr p [symmetric] Some True step this] show ?thesis .
        qed
      qed
    qed
  qed
qed


lemma token_SomeD:
  assumes "token reg L = Inr (Some t, L')"
  obtains k n where
    "rule_regex reg k (drop (lexpos L) (lexdata L)) = Some n"
    "k \<in> set (lexstatere (lexstate L))"
    "lexmatch L' = take n (drop (lexpos L) (lexdata L))"
    "tok_type t = k"
    "lexpos L < length (lexdata L)"
    "rule_func k
       \<lparr>tok_type = k, tok_value = take n (drop (lexpos L) (lexdata L)),
          tok_lineno = lineno L, tok_lexpos = lexpos L\<rparr>
       (L\<lparr>lexpos := lexpos L + n, lexmatch := take n (drop (lexpos L) (lexdata L))\<rparr>)
     = Inr (t, L')"
proof -
  from assms obtain k n where
    fm: "first_match reg (lexstatere (lexstate L)) (drop (lexpos L) (lexdata L)) = Some (k, n)"
    and rf: "rule_func k
            \<lparr>tok_type = k, tok_value = take n (drop (lexpos L) (lexdata L)),
               tok_lineno = lineno L, tok_lexpos = lexpos L\<rparr>
            (L\<lparr>lexpos := lexpos L + n, lexmatch := take n (drop (lexpos L) (lexdata L))\<rparr>)
          = Inr (t, L')"
    and lt: "lexpos L < length (lexdata L)"
    by (auto simp: token_Some)
  from rule_func_frame [OF rf] have "tok_type t = k"
    and "lexmatch L' = take n (drop (lexpos L) (lexdata L))"
    by simp_all
  moreover from first_match_Some [OF fm]
  have "rule_regex reg k (drop (lexpos L) (lexdata L)) = Some n"
    and "k \<in> set (lexstatere (lexstate L))"
    by simp_all
  ultimately show ?thesis using rf lt by (intro that [of k n])
qed

lemma step_nullable:
  assumes "token reg L = Inr (Some t, L')"
  shows "(tok_type t \<in> {UPOS, XPOS, FEATS, HEAD, DEPREL, DEPS, MISC} \<and> lexmatch L' = ''_''
            \<longrightarrow> tok_value t = VNone)
       \<and> (tok_type t \<in> {FORM, LEMMA} \<longrightarrow> tok_value t = VStr (lexmatch L'))"
proof -
  from assms obtain k n where k: "tok_type t = k"
    and m: "lexmatch L' = take n (drop (lexpos L) (lexdata L))"
    and rf: "rule_func k
       \<lparr>tok_type = k, tok_value = take n (drop (lexpos L) (lexdata L)),
          tok_lineno = lineno L, tok_lexpos = lexpos L\<rparr>
       (L\<lparr>lexpos := lexpos L + n, lexmatch := take n (drop (lexpos L) (lexdata L))\<rparr>)
     = Inr (t, L')"
    by (rule token_SomeD)
  from rf show ?thesis
    unfolding k m
    by (cases k)
      (auto simp: rule_defs begin_return_Inr set_value_def nullable_def split: option.splits)
qed

lemma step_no_space:
  assumes "token reg L = Inr (Some t, L')" and "tok_type t \<in> {XPOS, DEPREL, MISC}"
  shows "space \<notin> set (lexmatch L')"
proof -
  from assms(1) obtain k n where k: "tok_type t = k"
    and m: "lexmatch L' = take n (drop (lexpos L) (lexdata L))"
    and r: "rule_regex reg k (drop (lexpos L) (lexdata L)) = Some n"
    by (rule token_SomeD)
  have "matches_only not_nl_tab_sp (plus (cls not_nl_tab_sp))"
    by (intro only_plus only_cls)
  moreover from assms(2) k r
  have "plus (cls not_nl_tab_sp) (drop (lexpos L) (lexdata L)) = Some n" by auto
  ultimately have "list_all not_nl_tab_sp (lexmatch L')"
    unfolding m by (rule matches_onlyD [THEN conjunct2])
  then show ?thesis by (auto simp: list_all_iff not_nl_tab_sp_def)
qed

lemma takeWhile_run:
  "list_all P w \<Longrightarrow> rest = [] \<or> \<not> P (hd rest) \<Longrightarrow> takeWhile P (w @ rest) = w"
  by (induction w) (cases rest; auto)+

lemma plus_cls_run:
  assumes "w \<noteq> []" and "list_all P w" and "rest = [] \<or> \<not> P (hd rest)"
  shows "plus (cls P) (w @ rest) = Some (length w)"
proof -
  from assms(1) obtain c w' where w: "w = c # w'" by (cases w) auto
  with assms(2) have "P c" "list_all P w'" by simp_all
  with takeWhile_run [OF \<open>list_all P w'\<close> assms(3)] show ?thesis by (simp add: w)
qed

lemma drop_nonempty: "drop i xs = y # ys \<Longrightarrow> i < length xs \<and> xs ! i = y"
  by (metis drop_eq_Nil2 hd_drop_conv_nth list.distinct(1) list.sel(1) not_le)

lemma error_step:
  assumes "first_match reg (lexstatere (lexstate L)) (drop (lexpos L) (lexdata L)) = None"
    and "drop (lexpos L) (lexdata L) = c # rest"
  shows "token reg L =
    Inl (IllegalCharacterError (lineno L) (find_column (lexdata L) (lexpos L)) c)"
  using assms drop_nonempty [OF assms(2)] by (simp add: token_def t_ANY_error_def)

lemma field_step:
  assumes st: "lexstate L = C i" and i: "1 \<le> i" "i \<le> 9" "i \<noteq> 3" "i \<noteq> 5" "i \<noteq> 6" "i \<noteq> 8"
    and P: "P = (if i \<le> 2 then not_nl_tab else not_nl_tab_sp)"
    and d: "drop (lexpos L) (lexdata L) = w @ rest"
    and w: "w \<noteq> []" "list_all P w" "rest = [] \<or> \<not> P (hd rest)"
  shows "\<exists>t. token reg L =
      Inr (Some t, L\<lparr>lexpos := lexpos L + length w, lexmatch := w, lexstate := V i\<rparr>)
    \<and> tok_type t = hd (lexstatere (C i))
    \<and> tok_value t = (if i \<le> 2 then VStr w else nullable w)"
proof -
  from w(1) d obtain c r where "drop (lexpos L) (lexdata L) = c # r" by (cases w) auto
  from drop_nonempty [OF this] have lt: "lexpos L < length (lexdata L)" by simp
  from i have cases: "i = 1 \<or> i = 2 \<or> i = 4 \<or> i = 7 \<or> i = 9" by arith
  have m: "plus (cls P) (w @ rest) = Some (length w)"
    using w by (rule plus_cls_run)
  from cases show ?thesis
    using m lt by (auto simp: token_def st d P Let_def rule_defs begin_return_def
        begin_state_def declared_def set_value_def)
qed

subsection \<open>Decimal numerals\<close>

lemma list_all_takeWhile [simp]: "list_all P (takeWhile P xs)"
  by (induction xs) simp_all

lemma pos_int_take:
  assumes "pos_int s = Some n"
  shows "\<exists>c r. take n s = c # r \<and> nonzero_digit c \<and> list_all is_digit r"
  using assms by (cases s) (auto simp: pos_int_eq split: if_splits)

lemma head_take:
  assumes "alt (seq (cls nonzero_digit) (plus (cls is_digit))) (cls is_digit) s = Some n"
  shows "\<exists>c r. take n s = c # r \<and> is_digit c \<and> list_all is_digit r
           \<and> (r \<noteq> [] \<longrightarrow> nonzero_digit c)"
  using assms by (cases s) (auto simp: head_eq nonzero_is_digit split: if_splits)

lemma seq_take:
  assumes "seq m1 m2 s = Some n"
  obtains n1 n2 where "m1 s = Some n1" "m2 (drop n1 s) = Some n2"
    "take n s = take n1 s @ take n2 (drop n1 s)"
  using assms by (auto simp: seq_Some take_add)

lemma lit_take: "lit c s = Some n \<Longrightarrow> take n s = [c]"
  by (auto simp: lit_Some)

lemma digit_not_space: "is_digit c \<Longrightarrow> \<not> py_isspace c"
  by (auto simp: is_digit_def py_isspace_def in_range_def)

lemma digit_not_sign:
  "is_digit c \<Longrightarrow> c \<noteq> CHR ''-'' \<and> c \<noteq> CHR ''+'' \<and> c \<noteq> CHR ''.'' \<and> c \<noteq> CHR ''_''"
  by (auto simp: is_digit_def in_range_def)

lemma dropWhile_id: "xs = [] \<or> \<not> P (hd xs) \<Longrightarrow> dropWhile P xs = xs"
  by (cases xs) auto

lemma py_strip_id:
  assumes "list_all (\<lambda>c. \<not> py_isspace c) w"
  shows "py_strip w = w"
proof -
  have a: "dropWhile py_isspace w = w"
    using assms by (intro dropWhile_id) (cases w; simp)
  have "list_all (\<lambda>c. \<not> py_isspace c) (rev w)"
    using assms by (simp add: list_all_iff)
  then have "dropWhile py_isspace (rev w) = rev w"
    by (intro dropWhile_id) (cases "rev w"; simp)
  with a show ?thesis by (simp add: py_strip_def)
qed

lemma digits_acc_ge:
  "list_all is_digit w \<Longrightarrow> \<exists>n. digits_acc a w = Some n \<and> a \<le> n"
proof (induction a w rule: digits_acc.induct)
  case (3 a c d s)
  then obtain n where "digits_acc (10 * a + digit_val c) (d # s) = Some n"
    "10 * a + digit_val c \<le> n" by auto
  with 3(3) show ?case by auto
qed auto

lemma digit_val_nonzero: "nonzero_digit c \<Longrightarrow> 1 \<le> digit_val c"
  by (auto simp: nonzero_digit_def in_range_def digit_val_def)

lemma py_int_digits:
  assumes "is_digit c" and "list_all is_digit r"
  shows "\<exists>n. py_int (c # r) = Some (int n) \<and> (nonzero_digit c \<longrightarrow> 1 \<le> n)"
proof -
  have "list_all (\<lambda>c. \<not> py_isspace c) (c # r)"
    using assms by (auto simp: list_all_iff digit_not_space)
  then have s: "py_strip (c # r) = c # r" by (rule py_strip_id)
  have "\<exists>n. digits_acc 0 (c # r) = Some n \<and> (nonzero_digit c \<longrightarrow> 1 \<le> n)"
  proof (cases r)
    case Nil
    with assms show ?thesis by (auto dest: digit_val_nonzero)
  next
    case (Cons d s)
    with assms have "list_all is_digit (d # s)" by simp
    from digits_acc_ge [OF this, of "10 * 0 + digit_val c"]
    obtain n where "digits_acc (digit_val c) (d # s) = Some n" "digit_val c \<le> n" by auto
    with assms Cons show ?thesis using digit_val_nonzero [of c] by auto
  qed
  with assms(1) digit_not_sign [OF assms(1)] show ?thesis
    by (auto simp: py_int_def s py_int_unsigned_def)
qed

lemma py_split_none: "sep \<notin> set a \<Longrightarrow> py_split sep a = [a]"
  by (induction a) auto

lemma py_split_one:
  "sep \<notin> set a \<Longrightarrow> py_split sep (a @ sep # b) = a # py_split sep b"
  by (induction a) auto

lemma digits_no_sep:
  "list_all is_digit w \<Longrightarrow> CHR ''-'' \<notin> set w \<and> CHR ''.'' \<notin> set w"
  using digit_not_sign by (auto simp: list_all_iff)

lemma py_int_pair:
  assumes a: "is_digit c" "list_all is_digit r" and b: "is_digit c'" "list_all is_digit r'"
    and sep: "sep = CHR ''-'' \<or> sep = CHR ''.''"
  shows "\<exists>m n. those (map py_int (py_split sep ((c # r) @ sep # c' # r'))) = Some [int m, int n]
           \<and> (nonzero_digit c \<longrightarrow> 1 \<le> m) \<and> (nonzero_digit c' \<longrightarrow> 1 \<le> n)"
proof -
  from a have "list_all is_digit (c # r)" by simp
  from digits_no_sep [OF this] sep have 1: "sep \<notin> set (c # r)" by blast
  from b have "list_all is_digit (c' # r')" by simp
  from digits_no_sep [OF this] sep have 2: "sep \<notin> set (c' # r')" by blast
  have sp: "py_split sep ((c # r) @ sep # c' # r') = [c # r, c' # r']"
    by (simp only: py_split_one [OF 1] py_split_none [OF 2])
  from py_int_digits [OF a] obtain m where m: "py_int (c # r) = Some (int m)"
    "nonzero_digit c \<longrightarrow> 1 \<le> m" by blast
  from py_int_digits [OF b] obtain n where n: "py_int (c' # r') = Some (int n)"
    "nonzero_digit c' \<longrightarrow> 1 \<le> n" by blast
  from m n show ?thesis by (simp only: sp) auto
qed

lemma nonzero_not_zero: "nonzero_digit c \<Longrightarrow> c \<noteq> CHR ''0''"
  by (auto simp: nonzero_digit_def in_range_def)

lemma step_integer_id:
  assumes "token reg L = Inr (Some t, L')" and "tok_type t = INTEGER_ID"
  shows "\<exists>n. tok_value t = VInt (int n) \<and> 1 \<le> n"
proof -
  from assms(1) obtain k n where k: "tok_type t = k"
    and r: "rule_regex reg k (drop (lexpos L) (lexdata L)) = Some n"
    and rf: "rule_func k
       \<lparr>tok_type = k, tok_value = take n (drop (lexpos L) (lexdata L)),
          tok_lineno = lineno L, tok_lexpos = lexpos L\<rparr>
       (L\<lparr>lexpos := lexpos L + n, lexmatch := take n (drop (lexpos L) (lexdata L))\<rparr>)
     = Inr (t, L')"
    by (rule token_SomeD)
  from k assms(2) have k': "k = INTEGER_ID" by simp
  from r have "pos_int (drop (lexpos L) (lexdata L)) = Some n" by (simp add: k')
  from pos_int_take [OF this]
  obtain c w where w: "take n (drop (lexpos L) (lexdata L)) = c # w"
    "nonzero_digit c" "list_all is_digit w"
    by blast
  from py_int_digits [OF nonzero_is_digit [OF w(2)] w(3)] w(2)
  obtain m where "py_int (c # w) = Some (int m)" "1 \<le> m" by auto
  with rf show ?thesis
    unfolding k' w(1) by (auto simp: t_INTEGER_ID_def begin_return_Inr set_value_def)
qed

lemma step_range_id:
  assumes "token reg L = Inr (Some t, L')" and "tok_type t = RANGE_ID"
  shows "\<exists>a b. tok_value t = VInts [int a, int b] \<and> 1 \<le> a \<and> 1 \<le> b"
proof -
  from assms(1) obtain k n where k: "tok_type t = k"
    and r: "rule_regex reg k (drop (lexpos L) (lexdata L)) = Some n"
    and rf: "rule_func k
       \<lparr>tok_type = k, tok_value = take n (drop (lexpos L) (lexdata L)),
          tok_lineno = lineno L, tok_lexpos = lexpos L\<rparr>
       (L\<lparr>lexpos := lexpos L + n, lexmatch := take n (drop (lexpos L) (lexdata L))\<rparr>)
     = Inr (t, L')"
    by (rule token_SomeD)
  from k assms(2) have k': "k = RANGE_ID" by simp
  define s where "s = drop (lexpos L) (lexdata L)"
  from r have "seq pos_int (seq (lit CHR ''-'') pos_int) s = Some n"
    by (simp add: k' s_def)
  then obtain n1 n2 where 1: "pos_int s = Some n1"
    and 2: "seq (lit CHR ''-'') pos_int (drop n1 s) = Some n2"
    and t1: "take n s = take n1 s @ take n2 (drop n1 s)"
    by (rule seq_take)
  from 2 obtain n3 n4 where 3: "lit CHR ''-'' (drop n1 s) = Some n3"
    and 4: "pos_int (drop n3 (drop n1 s)) = Some n4"
    and t2: "take n2 (drop n1 s) = take n3 (drop n1 s) @ take n4 (drop n3 (drop n1 s))"
    by (rule seq_take)
  from pos_int_take [OF 1] obtain c w where a: "take n1 s = c # w" "nonzero_digit c"
    "list_all is_digit w" by blast
  from pos_int_take [OF 4] obtain c' w' where b: "take n4 (drop n3 (drop n1 s)) = c' # w'"
    "nonzero_digit c'" "list_all is_digit w'" by blast
  have m: "take n s = (c # w) @ CHR ''-'' # c' # w'"
    by (simp only: t1 t2 a(1) b(1) lit_take [OF 3]) simp
  from py_int_pair [OF nonzero_is_digit [OF a(2)] a(3) nonzero_is_digit [OF b(2)] b(3),
      of "CHR ''-''"] a(2) b(2)
  obtain x y where "those (map py_int (py_split CHR ''-'' ((c # w) @ CHR ''-'' # c' # w')))
      = Some [int x, int y]" "1 \<le> x" "1 \<le> y" by auto
  with rf show ?thesis
    unfolding k' s_def [symmetric] m
    by (auto simp: t_RANGE_ID_def begin_return_Inr set_value_def simp del: py_split.simps)
qed

lemma step_decimal_id:
  assumes "token reg L = Inr (Some t, L')" and "tok_type t = DECIMAL_ID"
  shows "\<exists>a b. tok_value t = VInts [int a, int b] \<and> 1 \<le> b"
proof -
  from assms(1) obtain k n where k: "tok_type t = k"
    and r: "rule_regex reg k (drop (lexpos L) (lexdata L)) = Some n"
    and rf: "rule_func k
       \<lparr>tok_type = k, tok_value = take n (drop (lexpos L) (lexdata L)),
          tok_lineno = lineno L, tok_lexpos = lexpos L\<rparr>
       (L\<lparr>lexpos := lexpos L + n, lexmatch := take n (drop (lexpos L) (lexdata L))\<rparr>)
     = Inr (t, L')"
    by (rule token_SomeD)
  from k assms(2) have k': "k = DECIMAL_ID" by simp
  define s where "s = drop (lexpos L) (lexdata L)"
  from r have "seq (alt (seq (cls nonzero_digit) (plus (cls is_digit))) (cls is_digit))
       (seq (lit CHR ''.'') pos_int) s = Some n"
    by (simp add: k' s_def)
  then obtain n1 n2 where
    1: "alt (seq (cls nonzero_digit) (plus (cls is_digit))) (cls is_digit) s = Some n1"
    and 2: "seq (lit CHR ''.'') pos_int (drop n1 s) = Some n2"
    and t1: "take n s = take n1 s @ take n2 (drop n1 s)"
    by (rule seq_take)
  from 2 obtain n3 n4 where 3: "lit CHR ''.'' (drop n1 s) = Some n3"
    and 4: "pos_int (drop n3 (drop n1 s)) = Some n4"
    and t2: "take n2 (drop n1 s) = take n3 (drop n1 s) @ take n4 (drop n3 (drop n1 s))"
    by (rule seq_take)
  from head_take [OF 1] obtain c w where a: "take n1 s = c # w" "is_digit c"
    "list_all is_digit w" by blast
  from pos_int_take [OF 4] obtain c' w' where b: "take n4 (drop n3 (drop n1 s)) = c' # w'"
    "nonzero_digit c'" "list_all is_digit w'" by blast
  have m: "take n s = (c # w) @ CHR ''.'' # c' # w'"
    by (simp only: t1 t2 a(1) b(1) lit_take [OF 3]) simp
  from py_int_pair [OF a(2) a(3) nonzero_is_digit [OF b(2)] b(3), of "CHR ''.''"] b(2)
  obtain x y where "those (map py_int (py_split CHR ''.'' ((c # w) @ CHR ''.'' # c' # w')))
      = Some [int x, int y]" "1 \<le> y" by auto
  with rf show ?thesis
    unfolding k' s_def [symmetric] m
    by (auto simp: t_DECIMAL_ID_def begin_return_Inr set_value_def simp del: py_split.simps)
qed

lemma step_head:
  assumes "token reg L = Inr (Some t, L')" and "tok_type t = HEAD"
  shows "(lexmatch L' = ''_'' \<and> tok_value t = VNone)
    \<or> (\<exists>n. tok_value t = VInt (int n) \<and> lexmatch L' \<noteq> [] \<and> list_all is_digit (lexmatch L')
          \<and> (1 < length (lexmatch L') \<longrightarrow> hd (lexmatch L') \<noteq> CHR ''0''))"
proof -
  from assms(1) obtain k n where k: "tok_type t = k"
    and r: "rule_regex reg k (drop (lexpos L) (lexdata L)) = Some n"
    and lm: "lexmatch L' = take n (drop (lexpos L) (lexdata L))"
    and rf: "rule_func k
       \<lparr>tok_type = k, tok_value = take n (drop (lexpos L) (lexdata L)),
          tok_lineno = lineno L, tok_lexpos = lexpos L\<rparr>
       (L\<lparr>lexpos := lexpos L + n, lexmatch := take n (drop (lexpos L) (lexdata L))\<rparr>)
     = Inr (t, L')"
    by (rule token_SomeD)
  from k assms(2) have k': "k = HEAD" by simp
  define s where "s = drop (lexpos L) (lexdata L)"
  from r have "alt (alt (seq (cls nonzero_digit) (plus (cls is_digit))) (cls is_digit))
      (lit CHR ''_'') s = Some n"
    by (simp add: k' s_def)
  then consider
    (num) "alt (seq (cls nonzero_digit) (plus (cls is_digit))) (cls is_digit) s = Some n"
    | (null) "lit CHR ''_'' s = Some n"
    by (auto simp: alt_Some)
  then show ?thesis
  proof cases
    case num
    from head_take [OF num] obtain c w where a: "take n s = c # w" "is_digit c"
      "list_all is_digit w" "w \<noteq> [] \<longrightarrow> nonzero_digit c" by blast
    from py_int_digits [OF a(2) a(3)] obtain m where m: "py_int (c # w) = Some (int m)"
      by blast
    have ne: "c # w \<noteq> ''_''" using digit_not_sign [OF a(2)] by simp
    from rf have "tok_value t = VInt (int m)"
      unfolding k' s_def [symmetric] a(1)
      using m ne by (auto simp: t_c6_HEAD_def begin_return_Inr set_value_def)
    moreover have "1 < length (c # w) \<longrightarrow> hd (c # w) \<noteq> CHR ''0''"
      using a(4) nonzero_not_zero by auto
    ultimately show ?thesis
      unfolding lm s_def [symmetric] a(1) using a(2,3) by auto
  next
    case null
    then have a: "take n s = ''_''" by (rule lit_take)
    from rf have "tok_value t = VNone"
      unfolding k' s_def [symmetric] a
      by (auto simp: t_c6_HEAD_def begin_return_Inr set_value_def)
    then show ?thesis unfolding lm s_def [symmetric] a by simp
  qed
qed

subsection \<open>The FEATS pattern and its decoder\<close>

lemma py_index_first:
  "c \<in> set x \<Longrightarrow> py_index c x = Some (length (takeWhile (\<lambda>a. a \<noteq> c) x))"
  by (induction x) auto

lemma feat_of_spec:
  assumes "CHR ''='' \<in> set x"
  shows "feat_of x = Some (spec_feat x)"
proof -
  have "drop (length (takeWhile (\<lambda>a. a \<noteq> CHR ''='') x) + 1) x
      = drop 1 (dropWhile (\<lambda>c. c \<noteq> CHR ''='') x)"
    by (simp only: add.commute [of _ 1] drop_drop [symmetric] drop_length_takeWhile)
  with assms show ?thesis
    by (simp add: feat_of_def spec_feat_def py_index_first)
qed

lemma those_feat_of:
  "list_all (\<lambda>x. CHR ''='' \<in> set x) xs \<Longrightarrow> those (map feat_of xs) = Some (map spec_feat xs)"
  by (induction xs) (simp_all add: feat_of_spec)

lemma only_feat_pair: "matches_only (\<lambda>c. c \<noteq> CHR ''|'') feat_pair"
  by (simp add: pattern_defs, (intro only_intros; auto simp: char_class_defs)+)

lemma feat_pair_take:
  assumes "feat_pair s = Some n"
  shows "CHR ''|'' \<notin> set (take n s) \<and> CHR ''='' \<in> set (take n s)"
proof -
  from matches_onlyD [OF only_feat_pair assms] have "CHR ''|'' \<notin> set (take n s)"
    by (auto simp: list_all_iff)
  moreover from assms obtain n1 n2 where a: "feat_name s = Some n1"
    and b: "seq (lit CHR ''='') feat_values (drop n1 s) = Some n2"
    and t1: "take n s = take n1 s @ take n2 (drop n1 s)"
    unfolding feat_pair_def by (rule seq_take)
  from b obtain n3 n4 where c: "lit CHR ''='' (drop n1 s) = Some n3"
    and t2: "take n2 (drop n1 s) = take n3 (drop n1 s) @ take n4 (drop n3 (drop n1 s))"
    by (rule seq_take)
  have "CHR ''='' \<in> set (take n s)"
    by (simp only: t1 t2 lit_take [OF c]) simp
  ultimately show ?thesis by blast
qed

lemma feats_tail:
  "star (seq (lit CHR ''|'') feat_pair) s = Some n \<Longrightarrow>
   CHR ''|'' \<notin> set a \<Longrightarrow> CHR ''='' \<in> set a \<Longrightarrow>
   list_all (\<lambda>x. CHR ''='' \<in> set x) (py_split CHR ''|'' (a @ take n s))"
proof (induction "seq (lit CHR ''|'') feat_pair" s arbitrary: n a rule: star.induct)
  case (1 s)
  note st = \<open>star (seq (lit CHR ''|'') feat_pair) s = Some n\<close>
  show ?case
  proof (cases "seq (lit CHR ''|'') feat_pair s")
    case None
    with st have "n = 0" by (simp add: star.simps [of _ s])
    with 1(3,4) show ?thesis by (simp add: py_split_none)
  next
    case (Some k)
    show ?thesis
    proof (cases "0 < k \<and> k \<le> length s")
      case False
      with Some st have "n = 0" by (auto simp: star.simps [of _ s])
      with 1(3,4) show ?thesis by (simp add: py_split_none)
    next
      case True
      with Some st obtain n' where
        n': "star (seq (lit CHR ''|'') feat_pair) (drop k s) = Some n'" and n: "n = k + n'"
        by (auto simp: star.simps [of _ s])
      from Some obtain k1 k2 where l: "lit CHR ''|'' s = Some k1"
        and p: "feat_pair (drop k1 s) = Some k2"
        and t: "take k s = take k1 s @ take k2 (drop k1 s)"
        by (rule seq_take)
      define b where "b = take k2 (drop k1 s)"
      from feat_pair_take [OF p] have b: "CHR ''|'' \<notin> set b" "CHR ''='' \<in> set b"
        by (simp_all add: b_def)
      from "1.hyps" [OF Some True n' b]
      have ih: "list_all (\<lambda>x. CHR ''='' \<in> set x) (py_split CHR ''|'' (b @ take n' (drop k s)))" .
      have "a @ take n s = a @ CHR ''|'' # (b @ take n' (drop k s))"
        by (simp only: n take_add t lit_take [OF l] b_def) simp
      with ih 1(3,4) show ?thesis
        by (simp only: py_split_one [OF 1(3)]) simp
    qed
  qed
qed

lemma feats_take:
  assumes "feats s = Some n"
  shows "take n s = ''_''
    \<or> list_all (\<lambda>x. CHR ''='' \<in> set x) (py_split CHR ''|'' (take n s)) \<and> take n s \<noteq> ''_''"
proof -
  from assms consider
    (pairs) "seq feat_pair (star (seq (lit CHR ''|'') feat_pair)) s = Some n"
    | (null) "lit CHR ''_'' s = Some n"
    by (auto simp: feats_def alt_Some)
  then show ?thesis
  proof cases
    case pairs
    then obtain n1 n2 where p: "feat_pair s = Some n1"
      and st: "star (seq (lit CHR ''|'') feat_pair) (drop n1 s) = Some n2"
      and t: "take n s = take n1 s @ take n2 (drop n1 s)"
      by (rule seq_take)
    from feat_pair_take [OF p] have a: "CHR ''|'' \<notin> set (take n1 s)"
      "CHR ''='' \<in> set (take n1 s)" by simp_all
    from feats_tail [OF st a]
    have "list_all (\<lambda>x. CHR ''='' \<in> set x) (py_split CHR ''|'' (take n s))"
      by (simp only: t)
    moreover from a(2) have "CHR ''='' \<in> set (take n s)" by (simp add: t)
    then have "take n s \<noteq> ''_''" by auto
    ultimately show ?thesis by blast
  next
    case null
    then show ?thesis by (simp add: lit_take)
  qed
qed

lemma cons_feats: "consuming feats"
  by (simp add: pattern_defs, (intro cons_intros)+)

lemma t_c5_FEATS_spec:
  assumes "feats s = Some n"
  shows "t_c5_FEATS \<lparr>tok_type = k, tok_value = take n s, tok_lineno = l, tok_lexpos = p\<rparr> L1 =
    Inr (\<lparr>tok_type = k,
          tok_value = (if take n s = ''_'' then VNone else VFeats (spec_feats (take n s))),
          tok_lineno = l, tok_lexpos = p\<rparr>, L1\<lparr>lexstate := V 5\<rparr>)"
  using feats_take [OF assms]
  by (auto simp: t_c5_FEATS_def those_feat_of spec_feats_def begin_return_def begin_state_def
      declared_def set_value_def simp del: py_split.simps)

lemma step_feats:
  assumes "token reg L = Inr (Some t, L')" and "tok_type t = FEATS"
  shows "tok_value t = (if lexmatch L' = ''_'' then VNone else VFeats (spec_feats (lexmatch L')))"
proof -
  from assms(1) obtain k n where k: "tok_type t = k"
    and r: "rule_regex reg k (drop (lexpos L) (lexdata L)) = Some n"
    and lm: "lexmatch L' = take n (drop (lexpos L) (lexdata L))"
    and rf: "rule_func k
       \<lparr>tok_type = k, tok_value = take n (drop (lexpos L) (lexdata L)),
          tok_lineno = lineno L, tok_lexpos = lexpos L\<rparr>
       (L\<lparr>lexpos := lexpos L + n, lexmatch := take n (drop (lexpos L) (lexdata L))\<rparr>)
     = Inr (t, L')"
    by (rule token_SomeD)
  from k assms(2) have k': "k = FEATS" by simp
  from r have f: "feats (drop (lexpos L) (lexdata L)) = Some n" by (simp add: k')
  from rf show ?thesis
    unfolding k' lm by (auto simp: t_c5_FEATS_spec [OF f])
qed

lemma feats_never_raises:
  assumes "lexstate L = C 5" and "feats (drop (lexpos L) (lexdata L)) = Some n"
  shows "\<exists>t L'. token reg L = Inr (Some t, L') \<and> tok_type t = FEATS
           \<and> lexmatch L' = take n (drop (lexpos L) (lexdata L))"
proof -
  from consumingD [OF cons_feats assms(2)] have "0 < n" .
  moreover have "rule_regex reg FEATS (drop (lexpos L) (lexdata L)) = Some n"
    using assms(2) by simp
  from matches_onlyD [OF only_rule this]
  have "n \<le> length (drop (lexpos L) (lexdata L))" by simp
  ultimately have lt: "lexpos L < length (lexdata L)" by simp
  show ?thesis
    using lt assms by (simp add: token_def t_c5_FEATS_spec Let_def)
qed

section \<open>The claims\<close>

text \<open>
  C3. The claim: every DEPS text matched in column 8, other than \<^verbatim>\<open>_\<close>, decodes to the
  list of its \<^verbatim>\<open>|\<close>-separated segments, each split at its first colon into an integer head
  and a relation. The code does not do this for every matched text: the relation pattern
  \<^verbatim>\<open>[^\n\t ]+\<close> accepts \<^verbatim>\<open>|\<close>, so the first pair of \<^verbatim>\<open>1:a|b\<close> swallows the whole
  field, the rule matches all five characters, and the decoder then raises ValueError on
  the segment \<^verbatim>\<open>b\<close>, which has no colon.
\<close>

theorem deps_segment_without_colon_raises:
  "deps ''1:a|b'' = Some 5
   \<and> token reg \<lparr>lexdata = ''1:a|b'', lexpos = 0, lineno = 1, lexstate = C 8,
                 lexmatch = [], tab_count = 8\<rparr> = Inl ValueError"
  by (simp add: run_defs)

text \<open>
  C7. The claim: IllegalCharacterError is the only error the lexer raises while it produces
  tokens. On the row \<open>bad_deps_row\<close> the lexer produces the sixteen tokens up to the tab
  before the DEPS field and then raises ValueError, from the decoder of \<^verbatim>\<open>t_c8_DEPS\<close>.
\<close>

theorem lexer_raises_value_error:
  "length (fst (lex_all ud_tags (input bad_deps_row))) = 16
   \<and> snd (lex_all ud_tags (input bad_deps_row)) = Raised ValueError"
  by (simp add: run_defs ud_tags_def bad_deps_row_def)

text \<open>
  C5. In the state \<^verbatim>\<open>INITIAL\<close> the text \<^verbatim>\<open>7\<close> gives an INTEGER_ID token with the integer 7,
  \<^verbatim>\<open>4-5\<close> a RANGE_ID token with the pair (4, 5) and \<^verbatim>\<open>8.1\<close> a DECIMAL_ID token with the pair
  (8, 1). The rules are tried in the order RANGE_ID, DECIMAL_ID, INTEGER_ID, and this order
  always picks the longest match: whenever one of the three ID patterns matches the text at
  the cursor, the rule that \<^verbatim>\<open>INITIAL\<close> selects is an ID rule and its match is at least as
  long.
\<close>

theorem id_field_decoding:
  "lex_all reg (input ''7'') =
     ([(''7'', \<lparr>tok_type = INTEGER_ID, tok_value = VInt 7, tok_lineno = 1, tok_lexpos = 0\<rparr>)],
      Exhausted)
   \<and> lex_all reg (input ''4-5'') =
     ([(''4-5'', \<lparr>tok_type = RANGE_ID, tok_value = VInts [4, 5], tok_lineno = 1,
                   tok_lexpos = 0\<rparr>)], Exhausted)
   \<and> lex_all reg (input ''8.1'') =
     ([(''8.1'', \<lparr>tok_type = DECIMAL_ID, tok_value = VInts [8, 1], tok_lineno = 1,
                   tok_lexpos = 0\<rparr>)], Exhausted)
   \<and> (\<forall>k s n. (k = INTEGER_ID \<or> k = RANGE_ID \<or> k = DECIMAL_ID)
          \<and> rule_regex reg k s = Some n \<longrightarrow>
        (\<exists>k' n'. first_match reg (lexstatere INITIAL) s = Some (k', n')
           \<and> (k' = INTEGER_ID \<or> k' = RANGE_ID \<or> k' = DECIMAL_ID) \<and> n \<le> n'))"
proof (intro conjI allI impI)
  show "lex_all reg (input ''7'') =
     ([(''7'', \<lparr>tok_type = INTEGER_ID, tok_value = VInt 7, tok_lineno = 1, tok_lexpos = 0\<rparr>)],
      Exhausted)"
    by (simp add: run_defs)
  show "lex_all reg (input ''4-5'') =
     ([(''4-5'', \<lparr>tok_type = RANGE_ID, tok_value = VInts [4, 5], tok_lineno = 1,
                   tok_lexpos = 0\<rparr>)], Exhausted)"
    by (simp add: run_defs)
  show "lex_all reg (input ''8.1'') =
     ([(''8.1'', \<lparr>tok_type = DECIMAL_ID, tok_value = VInts [8, 1], tok_lineno = 1,
                   tok_lexpos = 0\<rparr>)], Exhausted)"
    by (simp add: run_defs)
next
  fix k s n
  assume "(k = INTEGER_ID \<or> k = RANGE_ID \<or> k = DECIMAL_ID) \<and> rule_regex reg k s = Some n"
  then show "\<exists>k' n'. first_match reg (lexstatere INITIAL) s = Some (k', n')
           \<and> (k' = INTEGER_ID \<or> k' = RANGE_ID \<or> k' = DECIMAL_ID) \<and> n \<le> n'"
    using longest_id_wins [of reg k s n] by blast
qed

theorem id_field_decoding_witness:
  "rule_regex ud_tags INTEGER_ID ''4-5'' = Some 1
   \<and> first_match ud_tags (lexstatere INITIAL) ''4-5'' = Some (RANGE_ID, 3)
   \<and> (\<exists>k' n'. first_match ud_tags (lexstatere INITIAL) ''4-5'' = Some (k', n')
         \<and> (k' = INTEGER_ID \<or> k' = RANGE_ID \<or> k' = DECIMAL_ID) \<and> (1::nat) \<le> n')"
proof -
  have a: "rule_regex ud_tags INTEGER_ID ''4-5'' = Some 1"
    by (simp add: char_class_defs regex_defs)
  have b: "first_match ud_tags (lexstatere INITIAL) ''4-5'' = Some (RANGE_ID, 3)"
    by (simp add: char_class_defs regex_defs)
  from id_field_decoding [of ud_tags] a
  have "\<exists>k' n'. first_match ud_tags (lexstatere INITIAL) ''4-5'' = Some (k', n')
         \<and> (k' = INTEGER_ID \<or> k' = RANGE_ID \<or> k' = DECIMAL_ID) \<and> (1::nat) \<le> n'"
    by blast
  with a b show ?thesis by blast
qed

text \<open>
  C1. After any number of tokens produced from any input: the tab counter is the number of
  TAB tokens since the last NEWLINE token, so it is 0 right after a NEWLINE token (and the
  state is \<^verbatim>\<open>INITIAL\<close>); right after the i-th TAB token of a row, i is between 1 and 9 and
  the state is \<^verbatim>\<open>c_i\<close>; and when nine TAB tokens have been produced in the row, a tab at the
  cursor raises IllegalCharacterError, at that tab.
\<close>

theorem tab_counter:
  assumes "calls reg n (input data) = Some (ts, L)"
  shows "tab_count L = tabs_in_row ts
    \<and> (ts \<noteq> [] \<and> tok_type (last ts) = NEWLINE \<longrightarrow> tab_count L = 0 \<and> lexstate L = INITIAL)
    \<and> (ts \<noteq> [] \<and> tok_type (last ts) = TAB \<longrightarrow>
         1 \<le> tabs_in_row ts \<and> tabs_in_row ts \<le> 9 \<and> lexstate L = C (tabs_in_row ts))
    \<and> (tabs_in_row ts = 9 \<and> lexpos L < length data \<and> data ! lexpos L = tab \<longrightarrow>
         token reg L = Inl (IllegalCharacterError (lineno L) (find_column data (lexpos L)) tab))"
proof -
  from calls_invariant [OF assms]
  have inv: "in_row L" "lexdata L = data" "tab_count L = tabs_in_row ts"
    and nl: "ts \<noteq> [] \<and> tok_type (last ts) = NEWLINE \<longrightarrow> lexstate L = INITIAL"
    and tb: "ts \<noteq> [] \<and> tok_type (last ts) = TAB \<longrightarrow> lexstate L = C (tabs_in_row ts)"
    by simp_all
  have a: "ts \<noteq> [] \<and> tok_type (last ts) = NEWLINE \<longrightarrow> tab_count L = 0 \<and> lexstate L = INITIAL"
    using inv(1) nl by (auto simp: in_row_def)
  have b: "ts \<noteq> [] \<and> tok_type (last ts) = TAB \<longrightarrow>
         1 \<le> tabs_in_row ts \<and> tabs_in_row ts \<le> 9 \<and> lexstate L = C (tabs_in_row ts)"
    using inv(1,3) tb by (auto simp: in_row_def)
  have c: "tabs_in_row ts = 9 \<and> lexpos L < length data \<and> data ! lexpos L = tab \<longrightarrow>
         token reg L = Inl (IllegalCharacterError (lineno L) (find_column data (lexpos L)) tab)"
    using tenth_tab [of L reg] inv by auto
  from inv(3) a b c show ?thesis by blast
qed

theorem tab_counter_witness:
  "\<exists>ts L. calls ud_tags 19 (input ten_tabs_row) = Some (ts, L)
     \<and> tabs_in_row ts = 9 \<and> lexpos L < length ten_tabs_row \<and> ten_tabs_row ! lexpos L = tab
     \<and> token ud_tags L = Inl (IllegalCharacterError 1 20 tab)"
proof -
  have "case calls ud_tags 19 (input ten_tabs_row) of
          None \<Rightarrow> False
        | Some (ts, L) \<Rightarrow> tabs_in_row ts = 9 \<and> lexpos L < length ten_tabs_row
            \<and> ten_tabs_row ! lexpos L = tab \<and> lineno L = 1
            \<and> find_column ten_tabs_row (lexpos L) = 20"
    by (simp add: eval_nat_numeral char_class_defs regex_defs action_defs py_defs token_def
        input_def Let_def star.simps ud_tags_def ten_tabs_row_def tabs_in_row_def)
  then obtain ts L where c: "calls ud_tags 19 (input ten_tabs_row) = Some (ts, L)"
    and h: "tabs_in_row ts = 9" "lexpos L < length ten_tabs_row"
      "ten_tabs_row ! lexpos L = tab" "lineno L = 1" "find_column ten_tabs_row (lexpos L) = 20"
    by (auto split: option.splits)
  from tab_counter [OF c] h
  have "token ud_tags L = Inl (IllegalCharacterError 1 20 tab)" by simp
  with c h show ?thesis by blast
qed

text \<open>
  C4. For every input and every token the lexer produces from it: a token of the UPOS, XPOS,
  HEAD, DEPREL, DEPS, MISC or FEATS rule whose matched text is a single underscore has the
  value None, and a token of the FORM or LEMMA rule always has its matched text as value, so
  an underscore there stays the string of one underscore.
\<close>

theorem underscore_decoding:
  "\<forall>(w, t) \<in> set (fst (lex_all reg (input data))).
     (tok_type t \<in> {UPOS, XPOS, HEAD, DEPREL, DEPS, MISC, FEATS} \<and> w = ''_''
        \<longrightarrow> tok_value t = VNone)
     \<and> (tok_type t \<in> {FORM, LEMMA} \<longrightarrow> tok_value t = VStr w)"
proof -
  have "(tok_type t \<in> {UPOS, XPOS, HEAD, DEPREL, DEPS, MISC, FEATS} \<and> w = ''_''
        \<longrightarrow> tok_value t = VNone)
     \<and> (tok_type t \<in> {FORM, LEMMA} \<longrightarrow> tok_value t = VStr w)"
    if "(w, t) \<in> set (fst (lex_all reg (input data)))" for w t
    using _ that
  proof (rule lex_all_tokens)
    fix L t L'
    assume "token reg L = Inr (Some t, L')"
    from step_nullable [OF this]
    show "(tok_type t \<in> {UPOS, XPOS, HEAD, DEPREL, DEPS, MISC, FEATS} \<and> lexmatch L' = ''_''
        \<longrightarrow> tok_value t = VNone)
     \<and> (tok_type t \<in> {FORM, LEMMA} \<longrightarrow> tok_value t = VStr (lexmatch L'))"
      by blast
  qed
  then show ?thesis by blast
qed

theorem underscore_decoding_witness:
  "map (\<lambda>(w, t). (w, tok_type t, tok_value t)) (fst (lex_all ud_tags (input underscore_row))) =
     [(''1'', INTEGER_ID, VInt 1), ([tab], TAB, VStr [tab]),
      (''_'', FORM, VStr ''_''), ([tab], TAB, VStr [tab]),
      (''_'', LEMMA, VStr ''_''), ([tab], TAB, VStr [tab]),
      (''_'', UPOS, VNone), ([tab], TAB, VStr [tab]),
      (''_'', XPOS, VNone), ([tab], TAB, VStr [tab]),
      (''_'', FEATS, VNone), ([tab], TAB, VStr [tab]),
      (''_'', HEAD, VNone), ([tab], TAB, VStr [tab]),
      (''_'', DEPREL, VNone), ([tab], TAB, VStr [tab]),
      (''_'', DEPS, VNone), ([tab], TAB, VStr [tab]),
      (''_'', MISC, VNone), ([newline], NEWLINE, VStr [newline])]
   \<and> list_all (\<lambda>(w, t).
        (tok_type t \<in> {UPOS, XPOS, HEAD, DEPREL, DEPS, MISC, FEATS} \<and> w = ''_''
           \<longrightarrow> tok_value t = VNone)
        \<and> (tok_type t \<in> {FORM, LEMMA} \<longrightarrow> tok_value t = VStr w))
      (fst (lex_all ud_tags (input underscore_row)))"
proof -
  have "map (\<lambda>(w, t). (w, tok_type t, tok_value t)) (fst (lex_all ud_tags (input underscore_row))) =
     [(''1'', INTEGER_ID, VInt 1), ([tab], TAB, VStr [tab]),
      (''_'', FORM, VStr ''_''), ([tab], TAB, VStr [tab]),
      (''_'', LEMMA, VStr ''_''), ([tab], TAB, VStr [tab]),
      (''_'', UPOS, VNone), ([tab], TAB, VStr [tab]),
      (''_'', XPOS, VNone), ([tab], TAB, VStr [tab]),
      (''_'', FEATS, VNone), ([tab], TAB, VStr [tab]),
      (''_'', HEAD, VNone), ([tab], TAB, VStr [tab]),
      (''_'', DEPREL, VNone), ([tab], TAB, VStr [tab]),
      (''_'', DEPS, VNone), ([tab], TAB, VStr [tab]),
      (''_'', MISC, VNone), ([newline], NEWLINE, VStr [newline])]"
    by (simp add: run_defs ud_tags_def underscore_row_def)
  with underscore_decoding [of ud_tags underscore_row] show ?thesis
    unfolding list_all_iff by blast
qed

text \<open>
  C9. For every input, the matched text of an XPOS, DEPREL or MISC token has no space. In
  the states \<^verbatim>\<open>c4\<close>, \<^verbatim>\<open>c7\<close> and \<^verbatim>\<open>c9\<close> a space at the cursor raises IllegalCharacterError at the
  space, and a field text followed by a space is produced as the token up to the space, after
  which the next call raises IllegalCharacterError at the space. In the states \<^verbatim>\<open>c1\<close> and
  \<^verbatim>\<open>c2\<close> any non-empty run of characters other than tab and newline that reaches a tab, a
  newline or the end of the text, spaces included, is the FORM or LEMMA token, with the run
  itself as value.
\<close>

theorem space_in_fields:
  "(\<forall>(w, t) \<in> set (fst (lex_all reg (input data))).
      tok_type t \<in> {XPOS, DEPREL, MISC} \<longrightarrow> space \<notin> set w)
   \<and> (lexstate L \<in> {C 4, C 7, C 9} \<and> drop (lexpos L) (lexdata L) = space # rest \<longrightarrow>
        token reg L =
          Inl (IllegalCharacterError (lineno L) (find_column (lexdata L) (lexpos L)) space))
   \<and> (lexstate L \<in> {C 4, C 7, C 9} \<and> drop (lexpos L) (lexdata L) = w @ space # rest
        \<and> w \<noteq> [] \<and> list_all not_nl_tab_sp w \<longrightarrow>
        (\<exists>t L'. token reg L = Inr (Some t, L') \<and> lexmatch L' = w
           \<and> tok_type t \<in> {XPOS, DEPREL, MISC}
           \<and> token reg L' =
               Inl (IllegalCharacterError (lineno L)
                      (find_column (lexdata L) (lexpos L + length w)) space)))
   \<and> (lexstate L \<in> {C 1, C 2} \<and> drop (lexpos L) (lexdata L) = v @ rest'
        \<and> v \<noteq> [] \<and> list_all not_nl_tab v
        \<and> (rest' = [] \<or> hd rest' = tab \<or> hd rest' = newline) \<longrightarrow>
        (\<exists>t L'. token reg L = Inr (Some t, L') \<and> lexmatch L' = v
           \<and> tok_type t = (if lexstate L = C 1 then FORM else LEMMA)
           \<and> tok_value t = VStr v))"
proof (intro conjI impI)
  have "tok_type t \<in> {XPOS, DEPREL, MISC} \<longrightarrow> space \<notin> set w"
    if "(w, t) \<in> set (fst (lex_all reg (input data)))" for w t
    using _ that
  proof (rule lex_all_tokens)
    fix L t L'
    assume "token reg L = Inr (Some t, L')"
    then show "tok_type t \<in> {XPOS, DEPREL, MISC} \<longrightarrow> space \<notin> set (lexmatch L')"
      using step_no_space by blast
  qed
  then show "\<forall>(w, t) \<in> set (fst (lex_all reg (input data))).
      tok_type t \<in> {XPOS, DEPREL, MISC} \<longrightarrow> space \<notin> set w"
    by blast
next
  assume a: "lexstate L \<in> {C 4, C 7, C 9} \<and> drop (lexpos L) (lexdata L) = space # rest"
  then have "first_match reg (lexstatere (lexstate L)) (drop (lexpos L) (lexdata L)) = None"
    by (auto simp: char_class_defs regex_defs)
  with a show "token reg L =
          Inl (IllegalCharacterError (lineno L) (find_column (lexdata L) (lexpos L)) space)"
    by (intro error_step) simp_all
next
  assume a: "lexstate L \<in> {C 4, C 7, C 9} \<and> drop (lexpos L) (lexdata L) = w @ space # rest
        \<and> w \<noteq> [] \<and> list_all not_nl_tab_sp w"
  then obtain i where i: "lexstate L = C i" "i = 4 \<or> i = 7 \<or> i = 9" by auto
  define L' where "L' = L\<lparr>lexpos := lexpos L + length w, lexmatch := w, lexstate := V i\<rparr>"
  from i a have "\<exists>t. token reg L = Inr (Some t, L')
    \<and> tok_type t = hd (lexstatere (C i))
    \<and> tok_value t = (if i \<le> 2 then VStr w else nullable w)"
    unfolding L'_def
    by (intro field_step [where P = not_nl_tab_sp and rest = "space # rest"])
      (auto simp: not_nl_tab_sp_def)
  then obtain t where t: "token reg L = Inr (Some t, L')" "tok_type t = hd (lexstatere (C i))"
    by blast
  have d: "drop (lexpos L') (lexdata L') = space # rest"
    using a by (simp add: L'_def add.commute [of "lexpos L"] flip: drop_drop)
  have "first_match reg (lexstatere (lexstate L')) (drop (lexpos L') (lexdata L')) = None"
    unfolding d using i(2) by (auto simp: L'_def char_class_defs regex_defs)
  from error_step [OF this d]
  have "token reg L' = Inl (IllegalCharacterError (lineno L)
                      (find_column (lexdata L) (lexpos L + length w)) space)"
    by (simp add: L'_def)
  moreover have "tok_type t \<in> {XPOS, DEPREL, MISC}"
    using t(2) i(2) by auto
  moreover have "lexmatch L' = w" by (simp add: L'_def)
  ultimately show "\<exists>t L'. token reg L = Inr (Some t, L') \<and> lexmatch L' = w
           \<and> tok_type t \<in> {XPOS, DEPREL, MISC}
           \<and> token reg L' =
               Inl (IllegalCharacterError (lineno L)
                      (find_column (lexdata L) (lexpos L + length w)) space)"
    using t(1) by blast
next
  assume a: "lexstate L \<in> {C 1, C 2} \<and> drop (lexpos L) (lexdata L) = v @ rest'
        \<and> v \<noteq> [] \<and> list_all not_nl_tab v
        \<and> (rest' = [] \<or> hd rest' = tab \<or> hd rest' = newline)"
  then obtain i where i: "lexstate L = C i" "i = 1 \<or> i = 2" by auto
  define L' where "L' = L\<lparr>lexpos := lexpos L + length v, lexmatch := v, lexstate := V i\<rparr>"
  from i a have "\<exists>t. token reg L = Inr (Some t, L')
    \<and> tok_type t = hd (lexstatere (C i))
    \<and> tok_value t = (if i \<le> 2 then VStr v else nullable v)"
    unfolding L'_def
    by (intro field_step [where P = not_nl_tab and rest = rest'])
      (auto simp: not_nl_tab_def)
  then obtain t where t: "token reg L = Inr (Some t, L')" "tok_type t = hd (lexstatere (C i))"
    "tok_value t = VStr v"
    using i(2) by auto
  moreover have "lexmatch L' = v" by (simp add: L'_def)
  moreover have "tok_type t = (if lexstate L = C 1 then FORM else LEMMA)"
    using t(2) i by auto
  ultimately show "\<exists>t L'. token reg L = Inr (Some t, L') \<and> lexmatch L' = v
           \<and> tok_type t = (if lexstate L = C 1 then FORM else LEMMA)
           \<and> tok_value t = VStr v"
    by blast
qed


theorem space_in_fields_witness:
  "map (\<lambda>(w, t). (w, tok_type t)) (fst (lex_all ud_tags (input spaces_row))) =
     [(''1'', INTEGER_ID), ([tab], TAB), (''New York'', FORM), ([tab], TAB),
      (''new york'', LEMMA), ([tab], TAB), (''PROPN'', UPOS), ([tab], TAB), (''N'', XPOS)]
   \<and> list_all (\<lambda>(w, t). tok_type t \<in> {XPOS, DEPREL, MISC} \<longrightarrow> space \<notin> set w)
        (fst (lex_all ud_tags (input spaces_row)))
   \<and> token ud_tags \<lparr>lexdata = '' P'', lexpos = 0, lineno = 1, lexstate = C 4, lexmatch = [],
         tab_count = 4\<rparr> = Inl (IllegalCharacterError 1 1 space)
   \<and> (\<exists>t L'. token ud_tags \<lparr>lexdata = ''N P'', lexpos = 0, lineno = 1, lexstate = C 4,
          lexmatch = [], tab_count = 4\<rparr> = Inr (Some t, L') \<and> lexmatch L' = ''N''
        \<and> tok_type t \<in> {XPOS, DEPREL, MISC}
        \<and> token ud_tags L' = Inl (IllegalCharacterError 1 2 space))
   \<and> (\<exists>t L'. token ud_tags \<lparr>lexdata = ''New York'', lexpos = 0, lineno = 1, lexstate = C 1,
          lexmatch = [], tab_count = 1\<rparr> = Inr (Some t, L') \<and> lexmatch L' = ''New York''
        \<and> tok_type t = FORM \<and> tok_value t = VStr ''New York'')"
proof -
  have a: "map (\<lambda>(w, t). (w, tok_type t)) (fst (lex_all ud_tags (input spaces_row))) =
     [(''1'', INTEGER_ID), ([tab], TAB), (''New York'', FORM), ([tab], TAB),
      (''new york'', LEMMA), ([tab], TAB), (''PROPN'', UPOS), ([tab], TAB), (''N'', XPOS)]"
    by (simp add: run_defs ud_tags_def spaces_row_def)
  have b: "list_all (\<lambda>(w, t). tok_type t \<in> {XPOS, DEPREL, MISC} \<longrightarrow> space \<notin> set w)
        (fst (lex_all ud_tags (input spaces_row)))"
    using space_in_fields [of ud_tags spaces_row] unfolding list_all_iff by blast
  have c: "token ud_tags \<lparr>lexdata = '' P'', lexpos = 0, lineno = 1, lexstate = C 4, lexmatch = [],
         tab_count = 4\<rparr> = Inl (IllegalCharacterError 1 1 space)"
    using space_in_fields [of ud_tags "[]" "\<lparr>lexdata = '' P'', lexpos = 0, lineno = 1,
      lexstate = C 4, lexmatch = [], tab_count = 4\<rparr>" "''P''"]
    by (simp add: py_defs)
  have d: "\<exists>t L'. token ud_tags \<lparr>lexdata = ''N P'', lexpos = 0, lineno = 1, lexstate = C 4,
          lexmatch = [], tab_count = 4\<rparr> = Inr (Some t, L') \<and> lexmatch L' = ''N''
        \<and> tok_type t \<in> {XPOS, DEPREL, MISC}
        \<and> token ud_tags L' = Inl (IllegalCharacterError 1 2 space)"
    using space_in_fields [of ud_tags "[]" "\<lparr>lexdata = ''N P'', lexpos = 0, lineno = 1,
      lexstate = C 4, lexmatch = [], tab_count = 4\<rparr>" _ "''N''" "''P''"]
    by (simp add: py_defs char_class_defs)
  have e: "\<exists>t L'. token ud_tags \<lparr>lexdata = ''New York'', lexpos = 0, lineno = 1, lexstate = C 1,
          lexmatch = [], tab_count = 1\<rparr> = Inr (Some t, L') \<and> lexmatch L' = ''New York''
        \<and> tok_type t = FORM \<and> tok_value t = VStr ''New York''"
    using space_in_fields [of ud_tags "[]" "\<lparr>lexdata = ''New York'', lexpos = 0, lineno = 1,
      lexstate = C 1, lexmatch = [], tab_count = 1\<rparr>" _ _ "''New York''" "[]"]
    by (simp add: char_class_defs)
  from a b c d e show ?thesis by blast
qed

text \<open>
  C10. For every input and every token the lexer produces from it: the value of an
  INTEGER_ID token is an integer of at least 1; the value of a RANGE_ID token is a pair of
  integers of at least 1; the value of a DECIMAL_ID token is a pair whose first integer is at
  least 0 and whose second is at least 1; and a HEAD token with a value other than None has
  an integer of at least 0, and its text is a non-empty run of digits that does not start
  with 0 unless it is the single digit 0. The text \<^verbatim>\<open>0\<close> is not an ID: the lexer raises
  IllegalCharacterError on it. The first integer of a DECIMAL_ID can be 0 (\<^verbatim>\<open>0.1\<close>), a HEAD
  can be 0, and of the HEAD text \<^verbatim>\<open>05\<close> only the \<^verbatim>\<open>0\<close> is matched, after which the \<^verbatim>\<open>5\<close>
  raises IllegalCharacterError.
\<close>

theorem numeric_invariants:
  "(\<forall>(w, t) \<in> set (fst (lex_all reg (input data))).
      (tok_type t = INTEGER_ID \<longrightarrow> (\<exists>n. tok_value t = VInt n \<and> 1 \<le> n))
    \<and> (tok_type t = RANGE_ID \<longrightarrow> (\<exists>a b. tok_value t = VInts [a, b] \<and> 1 \<le> a \<and> 1 \<le> b))
    \<and> (tok_type t = DECIMAL_ID \<longrightarrow> (\<exists>a b. tok_value t = VInts [a, b] \<and> 0 \<le> a \<and> 1 \<le> b))
    \<and> (tok_type t = HEAD \<and> tok_value t \<noteq> VNone \<longrightarrow>
         (\<exists>n. tok_value t = VInt n \<and> 0 \<le> n) \<and> w \<noteq> [] \<and> list_all is_digit w
         \<and> (1 < length w \<longrightarrow> hd w \<noteq> CHR ''0'')))
   \<and> lex_all reg (input ''0'') = ([], Raised (IllegalCharacterError 1 1 CHR ''0''))
   \<and> lex_all reg (input ''0.1'') =
       ([(''0.1'', \<lparr>tok_type = DECIMAL_ID, tok_value = VInts [0, 1], tok_lineno = 1,
                    tok_lexpos = 0\<rparr>)], Exhausted)
   \<and> token reg \<lparr>lexdata = ''0'', lexpos = 0, lineno = 1, lexstate = C 6, lexmatch = [],
        tab_count = 6\<rparr> =
       Inr (Some \<lparr>tok_type = HEAD, tok_value = VInt 0, tok_lineno = 1, tok_lexpos = 0\<rparr>,
            \<lparr>lexdata = ''0'', lexpos = 1, lineno = 1, lexstate = V 6, lexmatch = ''0'',
               tab_count = 6\<rparr>)
   \<and> token reg \<lparr>lexdata = ''05'', lexpos = 0, lineno = 1, lexstate = C 6, lexmatch = [],
        tab_count = 6\<rparr> =
       Inr (Some \<lparr>tok_type = HEAD, tok_value = VInt 0, tok_lineno = 1, tok_lexpos = 0\<rparr>,
            \<lparr>lexdata = ''05'', lexpos = 1, lineno = 1, lexstate = V 6, lexmatch = ''0'',
               tab_count = 6\<rparr>)
   \<and> token reg \<lparr>lexdata = ''05'', lexpos = 1, lineno = 1, lexstate = V 6, lexmatch = ''0'',
        tab_count = 6\<rparr> = Inl (IllegalCharacterError 1 2 CHR ''5'')"
proof (intro conjI)
  have "(tok_type t = INTEGER_ID \<longrightarrow> (\<exists>n. tok_value t = VInt n \<and> 1 \<le> n))
    \<and> (tok_type t = RANGE_ID \<longrightarrow> (\<exists>a b. tok_value t = VInts [a, b] \<and> 1 \<le> a \<and> 1 \<le> b))
    \<and> (tok_type t = DECIMAL_ID \<longrightarrow> (\<exists>a b. tok_value t = VInts [a, b] \<and> 0 \<le> a \<and> 1 \<le> b))
    \<and> (tok_type t = HEAD \<and> tok_value t \<noteq> VNone \<longrightarrow>
         (\<exists>n. tok_value t = VInt n \<and> 0 \<le> n) \<and> w \<noteq> [] \<and> list_all is_digit w
         \<and> (1 < length w \<longrightarrow> hd w \<noteq> CHR ''0''))"
    if "(w, t) \<in> set (fst (lex_all reg (input data)))" for w t
    using _ that
  proof (rule lex_all_tokens)
    fix L t L'
    assume s: "token reg L = Inr (Some t, L')"
    have 1: "tok_type t = INTEGER_ID \<longrightarrow> (\<exists>n. tok_value t = VInt n \<and> 1 \<le> n)"
      using step_integer_id [OF s] by force
    have 2: "tok_type t = RANGE_ID \<longrightarrow>
        (\<exists>a b. tok_value t = VInts [a, b] \<and> 1 \<le> a \<and> 1 \<le> b)"
    proof
      assume "tok_type t = RANGE_ID"
      from step_range_id [OF s this] obtain a b where
        "tok_value t = VInts [int a, int b]" "1 \<le> a" "1 \<le> b" by blast
      then have "tok_value t = VInts [int a, int b] \<and> 1 \<le> int a \<and> 1 \<le> int b" by simp
      then show "\<exists>a b. tok_value t = VInts [a, b] \<and> 1 \<le> a \<and> 1 \<le> b" by blast
    qed
    have 3: "tok_type t = DECIMAL_ID \<longrightarrow>
        (\<exists>a b. tok_value t = VInts [a, b] \<and> 0 \<le> a \<and> 1 \<le> b)"
    proof
      assume "tok_type t = DECIMAL_ID"
      from step_decimal_id [OF s this] obtain a b where
        "tok_value t = VInts [int a, int b]" "1 \<le> b" by blast
      then have "tok_value t = VInts [int a, int b] \<and> 0 \<le> int a \<and> 1 \<le> int b" by simp
      then show "\<exists>a b. tok_value t = VInts [a, b] \<and> 0 \<le> a \<and> 1 \<le> b" by blast
    qed
    have 4: "tok_type t = HEAD \<and> tok_value t \<noteq> VNone \<longrightarrow>
         (\<exists>n. tok_value t = VInt n \<and> 0 \<le> n) \<and> lexmatch L' \<noteq> []
         \<and> list_all is_digit (lexmatch L')
         \<and> (1 < length (lexmatch L') \<longrightarrow> hd (lexmatch L') \<noteq> CHR ''0'')"
    proof
      assume h: "tok_type t = HEAD \<and> tok_value t \<noteq> VNone"
      with step_head [OF s] obtain n where n: "tok_value t = VInt (int n)"
        and r: "lexmatch L' \<noteq> []" "list_all is_digit (lexmatch L')"
          "1 < length (lexmatch L') \<longrightarrow> hd (lexmatch L') \<noteq> CHR ''0''"
        by blast
      from n have "tok_value t = VInt (int n) \<and> 0 \<le> int n" by simp
      then have "\<exists>n. tok_value t = VInt n \<and> 0 \<le> n" by blast
      with r show "(\<exists>n. tok_value t = VInt n \<and> 0 \<le> n) \<and> lexmatch L' \<noteq> []
         \<and> list_all is_digit (lexmatch L')
         \<and> (1 < length (lexmatch L') \<longrightarrow> hd (lexmatch L') \<noteq> CHR ''0'')"
        by blast
    qed
    from 1 2 3 4
    show "(tok_type t = INTEGER_ID \<longrightarrow> (\<exists>n. tok_value t = VInt n \<and> 1 \<le> n))
    \<and> (tok_type t = RANGE_ID \<longrightarrow> (\<exists>a b. tok_value t = VInts [a, b] \<and> 1 \<le> a \<and> 1 \<le> b))
    \<and> (tok_type t = DECIMAL_ID \<longrightarrow> (\<exists>a b. tok_value t = VInts [a, b] \<and> 0 \<le> a \<and> 1 \<le> b))
    \<and> (tok_type t = HEAD \<and> tok_value t \<noteq> VNone \<longrightarrow>
         (\<exists>n. tok_value t = VInt n \<and> 0 \<le> n) \<and> lexmatch L' \<noteq> []
         \<and> list_all is_digit (lexmatch L')
         \<and> (1 < length (lexmatch L') \<longrightarrow> hd (lexmatch L') \<noteq> CHR ''0''))"
      by blast
  qed
  then show "\<forall>(w, t) \<in> set (fst (lex_all reg (input data))).
      (tok_type t = INTEGER_ID \<longrightarrow> (\<exists>n. tok_value t = VInt n \<and> 1 \<le> n))
    \<and> (tok_type t = RANGE_ID \<longrightarrow> (\<exists>a b. tok_value t = VInts [a, b] \<and> 1 \<le> a \<and> 1 \<le> b))
    \<and> (tok_type t = DECIMAL_ID \<longrightarrow> (\<exists>a b. tok_value t = VInts [a, b] \<and> 0 \<le> a \<and> 1 \<le> b))
    \<and> (tok_type t = HEAD \<and> tok_value t \<noteq> VNone \<longrightarrow>
         (\<exists>n. tok_value t = VInt n \<and> 0 \<le> n) \<and> w \<noteq> [] \<and> list_all is_digit w
         \<and> (1 < length w \<longrightarrow> hd w \<noteq> CHR ''0''))"
    by blast
  show "lex_all reg (input ''0'') = ([], Raised (IllegalCharacterError 1 1 CHR ''0''))"
    by (simp add: run_defs)
  show "lex_all reg (input ''0.1'') =
       ([(''0.1'', \<lparr>tok_type = DECIMAL_ID, tok_value = VInts [0, 1], tok_lineno = 1,
                    tok_lexpos = 0\<rparr>)], Exhausted)"
    by (simp add: run_defs)
  show "token reg \<lparr>lexdata = ''0'', lexpos = 0, lineno = 1, lexstate = C 6, lexmatch = [],
        tab_count = 6\<rparr> =
       Inr (Some \<lparr>tok_type = HEAD, tok_value = VInt 0, tok_lineno = 1, tok_lexpos = 0\<rparr>,
            \<lparr>lexdata = ''0'', lexpos = 1, lineno = 1, lexstate = V 6, lexmatch = ''0'',
               tab_count = 6\<rparr>)"
    by (simp add: run_defs)
  show "token reg \<lparr>lexdata = ''05'', lexpos = 0, lineno = 1, lexstate = C 6, lexmatch = [],
        tab_count = 6\<rparr> =
       Inr (Some \<lparr>tok_type = HEAD, tok_value = VInt 0, tok_lineno = 1, tok_lexpos = 0\<rparr>,
            \<lparr>lexdata = ''05'', lexpos = 1, lineno = 1, lexstate = V 6, lexmatch = ''0'',
               tab_count = 6\<rparr>)"
    by (simp add: run_defs)
  show "token reg \<lparr>lexdata = ''05'', lexpos = 1, lineno = 1, lexstate = V 6, lexmatch = ''0'',
        tab_count = 6\<rparr> = Inl (IllegalCharacterError 1 2 CHR ''5'')"
    by (simp add: run_defs)
qed

theorem numeric_invariants_witness:
  "map (\<lambda>(w, t). (w, tok_type t, tok_value t)) (fst (lex_all ud_tags (input head_row))) =
     [(''12'', INTEGER_ID, VInt 12), ([tab], TAB, VStr [tab]),
      (''a'', FORM, VStr ''a''), ([tab], TAB, VStr [tab]),
      (''b'', LEMMA, VStr ''b''), ([tab], TAB, VStr [tab]),
      (''_'', UPOS, VNone), ([tab], TAB, VStr [tab]),
      (''_'', XPOS, VNone), ([tab], TAB, VStr [tab]),
      (''_'', FEATS, VNone), ([tab], TAB, VStr [tab]),
      (''10'', HEAD, VInt 10)]
   \<and> list_all (\<lambda>(w, t).
        (tok_type t = INTEGER_ID \<longrightarrow> (\<exists>n. tok_value t = VInt n \<and> 1 \<le> n))
        \<and> (tok_type t = HEAD \<and> tok_value t \<noteq> VNone \<longrightarrow>
             (\<exists>n. tok_value t = VInt n \<and> 0 \<le> n) \<and> w \<noteq> [] \<and> list_all is_digit w
             \<and> (1 < length w \<longrightarrow> hd w \<noteq> CHR ''0'')))
      (fst (lex_all ud_tags (input head_row)))"
proof -
  have "map (\<lambda>(w, t). (w, tok_type t, tok_value t)) (fst (lex_all ud_tags (input head_row))) =
     [(''12'', INTEGER_ID, VInt 12), ([tab], TAB, VStr [tab]),
      (''a'', FORM, VStr ''a''), ([tab], TAB, VStr [tab]),
      (''b'', LEMMA, VStr ''b''), ([tab], TAB, VStr [tab]),
      (''_'', UPOS, VNone), ([tab], TAB, VStr [tab]),
      (''_'', XPOS, VNone), ([tab], TAB, VStr [tab]),
      (''_'', FEATS, VNone), ([tab], TAB, VStr [tab]),
      (''10'', HEAD, VInt 10)]"
    by (simp add: run_defs ud_tags_def head_row_def)
  moreover from numeric_invariants [of ud_tags head_row]
  have "list_all (\<lambda>(w, t).
        (tok_type t = INTEGER_ID \<longrightarrow> (\<exists>n. tok_value t = VInt n \<and> 1 \<le> n))
        \<and> (tok_type t = HEAD \<and> tok_value t \<noteq> VNone \<longrightarrow>
             (\<exists>n. tok_value t = VInt n \<and> 0 \<le> n) \<and> w \<noteq> [] \<and> list_all is_digit w
             \<and> (1 < length w \<longrightarrow> hd w \<noteq> CHR ''0'')))
      (fst (lex_all ud_tags (input head_row)))"
    unfolding list_all_iff by blast
  ultimately show ?thesis by blast
qed

end
